theory Spec2Isabelle
  imports Main
begin

section \<open>Data model of \<^verbatim>\<open>cli_upload.py\<close>\<close>

text \<open>
  Strings are lists of characters; a character stands for a code point below 256.
  Paths, blocks, the import root and the destination containers are opaque to
  \<^verbatim>\<open>cli_upload.py\<close>: they are handed from one collaborator to the next, so they are
  plain strings here.
\<close>

type_synonym Path = string
type_synonym block = string
type_synonym container = string

text \<open>
  \<^verbatim>\<open>EvernoteNote\<close> (module \<^verbatim>\<open>enex_types\<close>): the three attributes that
  \<^verbatim>\<open>cli_upload.py\<close> reads, and the rest of the note as \<open>content\<close>.
\<close>

record EvernoteNote =
  note_hash :: string
  title :: string
  tags :: "string list"
  content :: string

text \<open>\<^verbatim>\<open>Rules\<close> (module \<^verbatim>\<open>utils_static\<close>): only \<^verbatim>\<open>rules.tag\<close> is read here.\<close>

record Rules =
  tag :: "string option"

text \<open>
  Exceptions, by the classes that the two \<^verbatim>\<open>except\<close> clauses of the file tell apart:
  \<^verbatim>\<open>NoteUploadFailException\<close> (module \<^verbatim>\<open>utils_exceptions\<close>, a subclass of
  \<^verbatim>\<open>Exception\<close>), \<^verbatim>\<open>ValueError\<close> (raised by a bounded semaphore released too often),
  any other subclass of \<^verbatim>\<open>Exception\<close>, and a \<^verbatim>\<open>BaseException\<close> that is not an
  \<^verbatim>\<open>Exception\<close> (\<^verbatim>\<open>KeyboardInterrupt\<close>, \<^verbatim>\<open>SystemExit\<close>). The string is the message.
\<close>

datatype exn =
    NoteUploadFailException string
  | ValueError string
  | Exception string
  | BaseException string

fun isinstance_Exception :: "exn \<Rightarrow> bool" where
  "isinstance_Exception (BaseException m) = False"
| "isinstance_Exception e = True"

fun isinstance_NoteUploadFailException :: "exn \<Rightarrow> bool" where
  "isinstance_NoteUploadFailException (NoteUploadFailException m) = True"
| "isinstance_NoteUploadFailException e = False"

fun exn_str :: "exn \<Rightarrow> string" where
  "exn_str (NoteUploadFailException m) = m"
| "exn_str (ValueError m) = m"
| "exn_str (Exception m) = m"
| "exn_str (BaseException m) = m"

datatype level = DEBUG | INFO | WARNING | ERROR

text \<open>
  \<^verbatim>\<open>self.done_hashes\<close> is either a \<^verbatim>\<open>DoneFile\<close> (its path and its in-memory set
  \<^verbatim>\<open>done_hashes\<close>) or, with no ledger path configured, a plain Python set.
\<close>

text \<open>
  What the code does that can be seen from outside: a record handed to the module's
  logger, a call of the collaborator \<^verbatim>\<open>parse_note\<close>, a call of the collaborator
  \<^verbatim>\<open>upload_note\<close> with its outcome (\<open>None\<close> is a normal return), and a call of
  \<^verbatim>\<open>add\<close> on the ledger. Calls are recorded with their arguments as they were at the
  call.
\<close>

datatype event =
    Log level string
  | ParseCall EvernoteNote
  | UploadCall container EvernoteNote "block list" "exn option"
  | LedgerAdd string

fun is_UploadCall :: "event \<Rightarrow> bool" where
  "is_UploadCall (UploadCall c n b r) = True"
| "is_UploadCall e = False"

fun is_ParseCall :: "event \<Rightarrow> bool" where
  "is_ParseCall (ParseCall n) = True"
| "is_ParseCall e = False"

fun is_LedgerAdd :: "event \<Rightarrow> bool" where
  "is_LedgerAdd (LedgerAdd h) = True"
| "is_LedgerAdd e = False"

fun is_Log :: "level \<Rightarrow> event \<Rightarrow> bool" where
  "is_Log lvl (Log l m) = (l = lvl)"
| "is_Log lvl e = False"

datatype done_store =
    DoneFile Path "string set"
  | PySet "string set"

text \<open>
  The state that the code reads and writes. The first seven fields are the attributes of
  the \<^verbatim>\<open>EnexUploader\<close> object; \<open>semaphore\<close> is the current value of the bounded
  semaphore, whose initial value is \<open>parallelism\<close>. The others are the world around it:
  the file system (path to content, absent when the file does not exist; and for the
  paths that cannot be opened for appending, a missing directory or a file that may not
  be written, the \<^verbatim>\<open>OSError\<close> that \<^verbatim>\<open>open(path, "a")\<close> raises there, which is an
  \<^verbatim>\<open>Exception\<close>), the heap of note objects (an address is an index), and the trace of
  what the code has done so far, in order.
\<close>

record state =
  import_root :: "string option"
  mode :: string
  rules :: Rules
  done_hashes :: done_store
  notebook_notes_count :: "nat option"
  parallelism :: nat
  semaphore :: nat
  fs :: "Path \<rightharpoonup> string"
  append_error :: "Path \<rightharpoonup> exn"
  heap :: "EvernoteNote list"
  trace :: "event list"

text \<open>
  The collaborators imported by the file, at their interface. \<^verbatim>\<open>parse_note\<close> returns
  blocks or raises. \<^verbatim>\<open>upload_note\<close> returns or raises (\<open>None\<close> is a normal return);
  its outcome may change from one call to the next, so it also depends on the number of
  upload calls made before (\<open>upload_count\<close> below). \<open>path_stem\<close> is \<^verbatim>\<open>Path.stem\<close>.
\<close>

record collab =
  parse_note :: "EvernoteNote \<Rightarrow> Rules \<Rightarrow> exn + block list"
  upload_note :: "nat \<Rightarrow> container \<Rightarrow> EvernoteNote \<Rightarrow> block list \<Rightarrow> exn option"
  get_notebook_database :: "string \<Rightarrow> string \<Rightarrow> container"
  get_notebook_page :: "string \<Rightarrow> string \<Rightarrow> container"
  count_notes :: "Path \<Rightarrow> nat"
  iter_notes :: "Path \<Rightarrow> EvernoteNote list"
  path_stem :: "Path \<Rightarrow> string"

section \<open>Strings, lines and logging\<close>

text \<open>\<^verbatim>\<open>str.isspace\<close> on one character: the white space that \<^verbatim>\<open>str.strip()\<close> removes.\<close>

definition isspace :: "char \<Rightarrow> bool" where
  "isspace c = (let n = (of_char c :: nat) in
     (9 \<le> n \<and> n \<le> 13) \<or> (28 \<le> n \<and> n \<le> 32) \<or> n = 133 \<or> n = 160)"

definition strip :: "string \<Rightarrow> string" where
  "strip s = rev (dropWhile isspace (rev (dropWhile isspace s)))"

text \<open>
  Iterating over a file opened in text mode: the lines of the content, each with its
  terminator, where \<^verbatim>\<open>\n\<close>, \<^verbatim>\<open>\r\n\<close> and \<^verbatim>\<open>\r\<close> all end a line and are read as
  \<^verbatim>\<open>\n\<close>. \<open>cur\<close> is the line read so far.
\<close>

fun lines_from :: "string \<Rightarrow> string \<Rightarrow> string list" where
  "lines_from cur [] = (if cur = [] then [] else [cur])"
| "lines_from cur (c # cs) =
     (if c = CHR 0x0A then (cur @ [CHR 0x0A]) # lines_from [] cs
      else if c = CHR 0x0D then
        (case cs of
           [] \<Rightarrow> [cur @ [CHR 0x0A]]
         | d # ds \<Rightarrow>
             if d = CHR 0x0A then (cur @ [CHR 0x0A]) # lines_from [] ds
             else (cur @ [CHR 0x0A]) # lines_from [] (d # ds))
      else lines_from (cur @ [c]) cs)"

definition readlines :: "string \<Rightarrow> string list" where
  "readlines s = lines_from [] s"

text \<open>\<^verbatim>\<open>str(n)\<close> for a natural number, as an f-string formats it.\<close>

definition digit_char :: "nat \<Rightarrow> char" where
  "digit_char d = char_of (48 + d)"

function str_nat :: "nat \<Rightarrow> string" where
  "str_nat n =
     (if n < 10 then [digit_char n] else str_nat (n div 10) @ [digit_char (n mod 10)])"
  by pat_completeness auto
termination
  by (relation "measure (\<lambda>n. n)") auto

declare str_nat.simps [simp del]

fun str_opt_nat :: "nat option \<Rightarrow> string" where
  "str_opt_nat None = ''None''"
| "str_opt_nat (Some n) = str_nat n"

definition log_record :: "level \<Rightarrow> string \<Rightarrow> state \<Rightarrow> state" where
  "log_record lvl msg w = w\<lparr>trace := trace w @ [Log lvl msg]\<rparr>"

definition upload_count :: "state \<Rightarrow> nat" where
  "upload_count w = length (filter is_UploadCall (trace w))"

text \<open>The messages of the logging calls of the file, as their f-strings build them.\<close>

definition quoted :: "string \<Rightarrow> string" where
  "quoted s = [CHR 0x27] @ s @ [CHR 0x27]"

definition msg_already_uploaded :: "EvernoteNote \<Rightarrow> string" where
  "msg_already_uploaded note = ''Skipping note '' @ quoted (title note) @ '' (already uploaded)''"

definition msg_parsing :: "EvernoteNote \<Rightarrow> string" where
  "msg_parsing note = ''Parsing note '' @ quoted (title note)"

definition msg_no_blocks :: "EvernoteNote \<Rightarrow> string" where
  "msg_no_blocks note = ''Skipping note '' @ quoted (title note) @ '' (no blocks)''"

definition msg_uploading :: "nat \<Rightarrow> nat option \<Rightarrow> EvernoteNote \<Rightarrow> string" where
  "msg_uploading note_idx cnt note =
     ''Uploading note '' @ str_nat note_idx @ '' out of '' @ str_opt_nat cnt @ '' ''
       @ quoted (title note)"

definition msg_parse_failed :: "EvernoteNote \<Rightarrow> string" where
  "msg_parse_failed note = ''Failed to parse note '' @ quoted (title note)"

definition msg_retrying :: "EvernoteNote \<Rightarrow> string" where
  "msg_retrying note =
     ''Failed to upload note '' @ quoted (title note) @ '' to Notion! Retrying...''"

definition msg_processing :: "string \<Rightarrow> string" where
  "msg_processing stem = ''Processing notebook '' @ quoted stem @ ''...''"

section \<open>\<^verbatim>\<open>DoneFile\<close>\<close>

text \<open>The in-memory set of a ledger.\<close>

fun hashes_of :: "done_store \<Rightarrow> string set" where
  "hashes_of (DoneFile p s) = s"
| "hashes_of (PySet s) = s"

text \<open>
  \<^verbatim>\<open>DoneFile.__init__\<close>: the set of the stripped lines of the file, the empty set when
  the file does not exist (\<^verbatim>\<open>FileNotFoundError\<close>).
\<close>

definition DoneFile_init :: "Path \<Rightarrow> (Path \<rightharpoonup> string) \<Rightarrow> done_store" where
  "DoneFile_init p files =
     (case files p of
        Some text \<Rightarrow> DoneFile p (set (map strip (readlines text)))
      | None \<Rightarrow> DoneFile p {})"

text \<open>
  The text of the ledger file at a path, empty when there is no file, and the tokens
  that \<^verbatim>\<open>DoneFile.__init__\<close> reads from it, in the order of the lines.
\<close>

definition file_text :: "Path \<Rightarrow> (Path \<rightharpoonup> string) \<Rightarrow> string" where
  "file_text p files = (case files p of None \<Rightarrow> [] | Some text \<Rightarrow> text)"

definition file_tokens :: "Path \<Rightarrow> (Path \<rightharpoonup> string) \<Rightarrow> string list" where
  "file_tokens p files = map strip (readlines (file_text p files))"

text \<open>
  A token that one line of the file holds as it is: no white space at either end and no
  line break inside.
\<close>

definition clean_token :: "string \<Rightarrow> bool" where
  "clean_token t = (strip t = t \<and> CHR 0x0A \<notin> set t \<and> CHR 0x0D \<notin> set t)"

text \<open>A ledger file that is absent, empty, or ends with a newline.\<close>

definition newline_ended :: "string \<Rightarrow> bool" where
  "newline_ended text = (text = [] \<or> last text = CHR 0x0A)"

text \<open>\<^verbatim>\<open>note_hash in self.done_hashes\<close>, for both kinds of ledger.\<close>

definition DoneFile_contains :: "done_store \<Rightarrow> string \<Rightarrow> bool" where
  "DoneFile_contains d h = (h \<in> hashes_of d)"

text \<open>
  Opening a file in mode \<^verbatim>\<open>"a"\<close> and writing: the file is created when absent, and
  the text goes after what is there (no newline translation, as on POSIX).
\<close>

definition append_file :: "Path \<Rightarrow> string \<Rightarrow> (Path \<rightharpoonup> string) \<Rightarrow> (Path \<rightharpoonup> string)" where
  "append_file p text files =
     files(p \<mapsto> (case files p of None \<Rightarrow> [] | Some old \<Rightarrow> old) @ text)"

text \<open>
  \<^verbatim>\<open>self.done_hashes.add(note_hash)\<close>. \<^verbatim>\<open>DoneFile.add\<close> first inserts into the set
  and then opens the file for appending: when \<^verbatim>\<open>open\<close> raises, the exception leaves
  \<^verbatim>\<open>add\<close> with the hash in the set and the file as it was (the \<^verbatim>\<open>finally\<close> clause
  only releases the lock); otherwise the hash and a newline are appended to the file. A
  plain set only inserts.
\<close>

definition DoneFile_add :: "string \<Rightarrow> state \<Rightarrow> (exn + unit) \<times> state" where
  "DoneFile_add h w =
     (case done_hashes w of
        DoneFile p s \<Rightarrow>
          (let w1 = w\<lparr>done_hashes := DoneFile p (insert h s),
                       trace := trace w @ [LedgerAdd h]\<rparr>
           in case append_error w p of
                Some e \<Rightarrow> (Inl e, w1)
              | None \<Rightarrow> (Inr (), w1\<lparr>fs := append_file p (h @ [CHR 0x0A]) (fs w)\<rparr>))
      | PySet s \<Rightarrow>
          (Inr (), w\<lparr>done_hashes := PySet (insert h s), trace := trace w @ [LedgerAdd h]\<rparr>))"

text \<open>Calls of \<^verbatim>\<open>add\<close> one after the other, up to the first one that raises.\<close>

fun DoneFile_add_all :: "string list \<Rightarrow> state \<Rightarrow> (exn + unit) \<times> state" where
  "DoneFile_add_all [] w = (Inr (), w)"
| "DoneFile_add_all (h # hs) w =
     (case DoneFile_add h w of
        (Inl e, w1) \<Rightarrow> (Inl e, w1)
      | (Inr u, w1) \<Rightarrow> DoneFile_add_all hs w1)"

section \<open>The per-note pipeline\<close>

text \<open>
  \<^verbatim>\<open>_upload_note\<close>: the loop \<^verbatim>\<open>for attempt in range(5)\<close>, as a recursion over the list
  of the attempts left. A normal return of the collaborator breaks the loop; a
  \<^verbatim>\<open>NoteUploadFailException\<close> is re-raised at attempt 4 and otherwise logged as a
  warning before the next attempt; any other exception is not caught.
\<close>

fun upload_attempts ::
  "collab \<Rightarrow> container \<Rightarrow> EvernoteNote \<Rightarrow> block list \<Rightarrow> nat list \<Rightarrow> state
    \<Rightarrow> (exn + unit) \<times> state" where
  "upload_attempts env root note blocks [] w = (Inr (), w)"
| "upload_attempts env root note blocks (attempt # rest) w =
     (let r = upload_note env (upload_count w) root note blocks;
          w1 = w\<lparr>trace := trace w @ [UploadCall root note blocks r]\<rparr>
      in case r of
           None \<Rightarrow> (Inr (), w1)
         | Some e \<Rightarrow>
             if isinstance_NoteUploadFailException e then
               (if attempt = 4 then (Inl e, w1)
                else upload_attempts env root note blocks rest
                  (log_record WARNING (msg_retrying note) w1))
             else (Inl e, w1))"

definition module_upload_note ::
  "collab \<Rightarrow> container \<Rightarrow> EvernoteNote \<Rightarrow> block list \<Rightarrow> state \<Rightarrow> (exn + unit) \<times> state" where
  "module_upload_note env root note blocks w =
     upload_attempts env root note blocks [0..<5] w"

text \<open>
  \<^verbatim>\<open>EnexUploader._parse_note\<close>: \<^verbatim>\<open>except Exception\<close> turns a failure of the
  translation into the empty block list, with an error record and a debug record; an
  exception that is not an \<^verbatim>\<open>Exception\<close> is not caught.
\<close>

definition EnexUploader_parse_note ::
  "collab \<Rightarrow> EvernoteNote \<Rightarrow> state \<Rightarrow> (exn + block list) \<times> state" where
  "EnexUploader_parse_note env note w =
     (let w1 = w\<lparr>trace := trace w @ [ParseCall note]\<rparr>
      in case parse_note env note (rules w) of
           Inr blocks \<Rightarrow> (Inr blocks, w1)
         | Inl e \<Rightarrow>
             if isinstance_Exception e then
               (Inr [],
                log_record DEBUG (exn_str e)
                  (log_record ERROR (msg_parse_failed note) w1))
             else (Inl e, w1))"

text \<open>
  Lines 84 and 85, \<^verbatim>\<open>if self.rules.tag and self.rules.tag not in note.tags:
  note.tags.append(self.rules.tag)\<close>: \<^verbatim>\<open>None\<close> and the empty string are both false.
\<close>

definition apply_tag_rule :: "Rules \<Rightarrow> EvernoteNote \<Rightarrow> EvernoteNote" where
  "apply_tag_rule r note =
     (case tag r of
        None \<Rightarrow> note
      | Some t \<Rightarrow>
          if t \<noteq> [] \<and> t \<notin> set (tags note) then note\<lparr>tags := tags note @ [t]\<rparr>
          else note)"

text \<open>
  \<^verbatim>\<open>EnexUploader.upload_note\<close>. The note object is mutated in place by the tag rule, so
  the function also returns the note as it is at the end.
\<close>

definition EnexUploader_upload_note ::
  "collab \<Rightarrow> container option \<Rightarrow> EvernoteNote \<Rightarrow> nat \<Rightarrow> state
    \<Rightarrow> (exn + unit) \<times> EvernoteNote \<times> state" where
  "EnexUploader_upload_note env notebook_root note note_idx w =
     (if DoneFile_contains (done_hashes w) (note_hash note) then
        (Inr (), note, log_record DEBUG (msg_already_uploaded note) w)
      else
        let note1 = apply_tag_rule (rules w) note;
            w1 = log_record DEBUG (msg_parsing note1) w
        in (case EnexUploader_parse_note env note1 w1 of
              (Inl e, w2) \<Rightarrow> (Inl e, note1, w2)
            | (Inr note_blocks, w2) \<Rightarrow>
                if note_blocks = [] then
                  (Inr (), note1, log_record DEBUG (msg_no_blocks note1) w2)
                else
                  (case notebook_root of
                     None \<Rightarrow> (Inr (), note1, w2)
                   | Some root \<Rightarrow>
                       let w3 = log_record INFO
                                  (msg_uploading note_idx (notebook_notes_count w2) note1) w2
                       in (case module_upload_note env root note1 note_blocks w3 of
                             (Inl e, w4) \<Rightarrow> (Inl e, note1, w4)
                           | (Inr u, w4) \<Rightarrow>
                               (case DoneFile_add (note_hash note1) w4 of
                                  (r, w5) \<Rightarrow> (r, note1, w5))))))"

text \<open>
  \<^verbatim>\<open>BoundedSemaphore.release(n)\<close>: a \<^verbatim>\<open>ValueError\<close> when \<open>n\<close> is below one or when
  the value would pass the initial value.
\<close>

definition semaphore_release :: "nat \<Rightarrow> state \<Rightarrow> exn + state" where
  "semaphore_release n w =
     (if n < 1 then Inl (ValueError ''n must be one or more'')
      else if semaphore w + n > parallelism w then
        Inl (ValueError ''Semaphore released too many times'')
      else Inr (w\<lparr>semaphore := semaphore w + n\<rparr>))"

text \<open>
  \<^verbatim>\<open>EnexUploader.upload_note_with_release\<close> on the note at address \<open>a\<close>:
  \<^verbatim>\<open>copy.deepcopy\<close> puts a copy of the note in a fresh cell, the pipeline runs on the
  copy, and the \<^verbatim>\<open>finally\<close> clause releases the semaphore on every path, after which
  the exception of the pipeline, if any, goes on; an exception of the release itself
  replaces it.
\<close>

definition EnexUploader_upload_note_with_release ::
  "collab \<Rightarrow> container option \<Rightarrow> nat \<Rightarrow> nat \<Rightarrow> state \<Rightarrow> (exn + unit) \<times> state" where
  "EnexUploader_upload_note_with_release env notebook_root a note_idx w =
     (let copy_addr = length (heap w);
          w1 = w\<lparr>heap := heap w @ [heap w ! a]\<rparr>
      in case EnexUploader_upload_note env notebook_root (heap w1 ! copy_addr) note_idx w1 of
           (r, note', w2) \<Rightarrow>
             let w3 = w2\<lparr>heap := (heap w2)[copy_addr := note']\<rparr>
             in (case semaphore_release 1 w3 of
                   Inl e \<Rightarrow> (Inl e, w3)
                 | Inr w4 \<Rightarrow> (r, w4)))"

text \<open>\<^verbatim>\<open>EnexUploader._get_notebook_root\<close>.\<close>

definition EnexUploader_get_notebook_root :: "collab \<Rightarrow> string \<Rightarrow> state \<Rightarrow> container option" where
  "EnexUploader_get_notebook_root env notebook_title w =
     (case import_root w of
        None \<Rightarrow> None
      | Some r \<Rightarrow>
          if mode w = ''DB'' then Some (get_notebook_database env r notebook_title)
          else Some (get_notebook_page env r notebook_title))"

text \<open>
  \<^verbatim>\<open>EnexUploader.__init__\<close>, in a world with the given file system: the ledger is a
  \<^verbatim>\<open>DoneFile\<close> read from \<open>done_file\<close> when a path is given and an empty set otherwise,
  and the semaphore starts at \<open>parallelism\<close>.
\<close>

definition EnexUploader_init ::
  "string option \<Rightarrow> string \<Rightarrow> Path option \<Rightarrow> Rules \<Rightarrow> nat \<Rightarrow> state \<Rightarrow> state" where
  "EnexUploader_init root m done_file r p w =
     w\<lparr>import_root := root, mode := m, rules := r,
       done_hashes := (case done_file of
                         Some path \<Rightarrow> DoneFile_init path (fs w)
                       | None \<Rightarrow> PySet {}),
       notebook_notes_count := None, parallelism := p, semaphore := p\<rparr>"

section \<open>\<^verbatim>\<open>EnexUploader.upload_notebook\<close>: the coordinator and its worker threads\<close>

text \<open>
  Where the coordinating thread stands in \<^verbatim>\<open>upload_notebook\<close>: in the loop over the
  notes (with the notes that the iterator has still to yield and the index of the next
  one), in the loop that awaits the workers by acquiring the semaphore \<open>parallelism\<close>
  times (with the number of acquisitions done), returned, or ended by an exception.
\<close>

datatype coord_pc =
    Submitting "EvernoteNote list" nat
  | Awaiting nat
  | Returned
  | Raised exn

text \<open>
  The threads of one call of \<^verbatim>\<open>upload_notebook\<close>: the shared state, the coordinator,
  its local variable \<^verbatim>\<open>notebook_root\<close>, the worker threads that were started and have
  not finished (each with the arguments of \<^verbatim>\<open>upload_note_with_release\<close>: the address
  of its note and the index of the note), and the exceptions that ended a worker thread.
\<close>

record sys =
  shared :: state
  coord :: coord_pc
  notebook_root :: "container option"
  threads :: "(nat \<times> nat) list"
  uncaught :: "exn list"

text \<open>Lines 59 to 62: what \<^verbatim>\<open>upload_notebook\<close> does before its loop.\<close>

definition upload_notebook_start :: "collab \<Rightarrow> Path \<Rightarrow> state \<Rightarrow> sys" where
  "upload_notebook_start env enex_file w =
     (let w1 = log_record INFO (msg_processing (path_stem env enex_file)) w;
          w2 = w1\<lparr>notebook_notes_count := Some (count_notes env enex_file)\<rparr>
      in \<lparr>shared = w2,
          coord = Submitting (iter_notes env enex_file) 1,
          notebook_root = EnexUploader_get_notebook_root env (path_stem env enex_file) w2,
          threads = [],
          uncaught = []\<rparr>)"

text \<open>
  What one thread does next. \<open>Submit\<close>: the coordinator takes the next note from the
  iterator, acquires the semaphore and starts a thread for the note. \<open>EndLoop\<close>: the
  iterator is exhausted and the coordinator goes on to await the workers.
  \<open>Run i\<close>: the \<open>i\<close>-th running worker executes \<^verbatim>\<open>upload_note_with_release\<close> and ends.
  \<open>AwaitAcquire\<close>: one \<^verbatim>\<open>acquire\<close> of the awaiting loop. \<open>AwaitRelease\<close>: the final
  \<^verbatim>\<open>release(self.parallelism)\<close>.
\<close>

datatype action = Submit | EndLoop | Run nat | AwaitAcquire | AwaitRelease

text \<open>
  One step of the threads, \<open>None\<close> when the thread cannot take the step (an
  \<^verbatim>\<open>acquire\<close> on a semaphore at zero blocks). The body of a worker is taken as one
  step: the workers share only the ledger, whose every operation holds its lock, and
  the semaphore.
\<close>

fun upload_notebook_step :: "collab \<Rightarrow> action \<Rightarrow> sys \<Rightarrow> sys option" where
  "upload_notebook_step env Submit s =
     (case coord s of
        Submitting (note # rest) note_idx \<Rightarrow>
          if 0 < semaphore (shared s) then
            Some (s\<lparr>shared := (shared s)\<lparr>heap := heap (shared s) @ [note],
                                        semaphore := semaphore (shared s) - 1\<rparr>,
                    coord := Submitting rest (note_idx + 1),
                    threads := threads s @ [(length (heap (shared s)), note_idx)]\<rparr>)
          else None
      | _ \<Rightarrow> None)"
| "upload_notebook_step env EndLoop s =
     (case coord s of
        Submitting [] note_idx \<Rightarrow> Some (s\<lparr>coord := Awaiting 0\<rparr>)
      | _ \<Rightarrow> None)"
| "upload_notebook_step env (Run i) s =
     (if i < length (threads s) then
        (case threads s ! i of
           (a, note_idx) \<Rightarrow>
             (case EnexUploader_upload_note_with_release env (notebook_root s) a note_idx (shared s) of
                (r, w') \<Rightarrow>
                  Some (s\<lparr>shared := w',
                          threads := take i (threads s) @ drop (Suc i) (threads s),
                          uncaught := uncaught s @ (case r of Inl e \<Rightarrow> [e] | Inr u \<Rightarrow> [])\<rparr>)))
      else None)"
| "upload_notebook_step env AwaitAcquire s =
     (case coord s of
        Awaiting i \<Rightarrow>
          if i < parallelism (shared s) \<and> 0 < semaphore (shared s) then
            Some (s\<lparr>shared := (shared s)\<lparr>semaphore := semaphore (shared s) - 1\<rparr>,
                    coord := Awaiting (i + 1)\<rparr>)
          else None
      | _ \<Rightarrow> None)"
| "upload_notebook_step env AwaitRelease s =
     (case coord s of
        Awaiting i \<Rightarrow>
          if i < parallelism (shared s) then None
          else
            (case semaphore_release (parallelism (shared s)) (shared s) of
               Inl e \<Rightarrow> Some (s\<lparr>coord := Raised e\<rparr>)
             | Inr w' \<Rightarrow> Some (s\<lparr>shared := w', coord := Returned\<rparr>))
      | _ \<Rightarrow> None)"

text \<open>A schedule is the list of the steps taken, in order.\<close>

fun upload_notebook_exec :: "collab \<Rightarrow> action list \<Rightarrow> sys \<Rightarrow> sys option" where
  "upload_notebook_exec env [] s = Some s"
| "upload_notebook_exec env (act # acts) s =
     (case upload_notebook_step env act s of
        None \<Rightarrow> None
      | Some s' \<Rightarrow> upload_notebook_exec env acts s')"

definition upload_notebook :: "collab \<Rightarrow> Path \<Rightarrow> action list \<Rightarrow> state \<Rightarrow> sys option" where
  "upload_notebook env enex_file acts w =
     upload_notebook_exec env acts (upload_notebook_start env enex_file w)"

text \<open>
  The account of the slots. The semaphore starts at \<open>P\<close>; every started worker and
  every acquisition of the awaiting loop holds one slot until it is released. When
  \<^verbatim>\<open>upload_notebook\<close> has returned, no worker is left and all slots are free. The
  coordinator can only end by an exception when \<open>P\<close> is zero, where
  \<^verbatim>\<open>release(0)\<close> is an error.
\<close>

definition slots_inv :: "nat \<Rightarrow> sys \<Rightarrow> bool" where
  "slots_inv P s =
     (parallelism (shared s) = P \<and>
      (case coord s of
         Submitting ns i \<Rightarrow> semaphore (shared s) + length (threads s) = P
       | Awaiting k \<Rightarrow> k \<le> P \<and> semaphore (shared s) + length (threads s) + k = P
       | Returned \<Rightarrow> semaphore (shared s) = P \<and> threads s = []
       | Raised e \<Rightarrow> P = 0 \<and> threads s = []))"

text \<open>
  A later run of the program on the world that an earlier run has left: a new uploader
  with the same configuration, whose ledger is constructed from the file at the path.
\<close>

definition restart :: "Path \<Rightarrow> state \<Rightarrow> state" where
  "restart p w =
     EnexUploader_init (import_root w) (mode w) (Some p) (rules w) (parallelism w) w"

text \<open>The tokens of a list of notes.\<close>

definition tokens_of :: "EvernoteNote list \<Rightarrow> string set" where
  "tokens_of ns = note_hash ` set ns"

text \<open>
  The notes that the iterator has still to yield, and the notes of the workers that are
  running.
\<close>

definition waiting_notes :: "sys \<Rightarrow> EvernoteNote list" where
  "waiting_notes s =
     (case coord s of Submitting ns i \<Rightarrow> ns | Awaiting k \<Rightarrow> [] | Returned \<Rightarrow> [] | Raised e \<Rightarrow> [])"

definition running_notes :: "sys \<Rightarrow> EvernoteNote list" where
  "running_notes s = map (\<lambda>t. heap (shared s) ! fst t) (threads s)"

text \<open>
  What holds at every point of a call of \<^verbatim>\<open>upload_notebook\<close> on the notes \<open>N\<close> that
  started in \<open>s0\<close>: the configuration is the same, the ledger has grown, and only by
  tokens of \<open>N\<close>, the workers run on notes of \<open>N\<close>, and every upload call made since
  the start was for a note of \<open>N\<close> whose token was not in the ledger at the start.
\<close>

definition resume_inv :: "EvernoteNote list \<Rightarrow> sys \<Rightarrow> sys \<Rightarrow> bool" where
  "resume_inv N s0 s =
     (rules (shared s) = rules (shared s0) \<and> notebook_root s = notebook_root s0 \<and>
      append_error (shared s) = append_error (shared s0) \<and>
      hashes_of (done_hashes (shared s0)) \<subseteq> hashes_of (done_hashes (shared s)) \<and>
      hashes_of (done_hashes (shared s)) \<subseteq> hashes_of (done_hashes (shared s0)) \<union> tokens_of N \<and>
      (\<forall>t\<in>set (threads s). fst t < length (heap (shared s))) \<and>
      set (running_notes s) \<subseteq> set N \<and> set (waiting_notes s) \<subseteq> set N \<and>
      (\<exists>ev. trace (shared s) = trace (shared s0) @ ev \<and>
         (\<forall>e\<in>set ev. is_UploadCall e \<longrightarrow>
            (\<exists>c n b y. e = UploadCall c n b y \<and> note_hash n \<in> tokens_of N \<and>
               note_hash n \<notin> hashes_of (done_hashes (shared s0))))))"

text \<open>
  The ledger and its file agree: the tokens read from the file are the in-memory set,
  each of them is there once, and the file is empty or ends with a newline.
\<close>

definition file_inv :: "Path \<Rightarrow> sys \<Rightarrow> bool" where
  "file_inv p s =
     (done_hashes (shared s) = DoneFile p (set (file_tokens p (fs (shared s)))) \<and>
      newline_ended (file_text p (fs (shared s))) \<and>
      distinct (file_tokens p (fs (shared s))))"

text \<open>No note is lost: its token is in the ledger, or it is running, or it is still to come.\<close>

definition complete_inv :: "EvernoteNote list \<Rightarrow> sys \<Rightarrow> bool" where
  "complete_inv N s =
     (tokens_of N \<subseteq> hashes_of (done_hashes (shared s)) \<union> tokens_of (running_notes s)
        \<union> tokens_of (waiting_notes s))"

section \<open>Example inputs\<close>

definition note_a :: EvernoteNote where
  "note_a = \<lparr>note_hash = ''h1'', title = ''A'', tags = [''x''], content = ''body a''\<rparr>"

definition note_b :: EvernoteNote where
  "note_b = \<lparr>note_hash = ''h2'', title = ''B'', tags = [''evernote''], content = ''body b''\<rparr>"

definition note_c :: EvernoteNote where
  "note_c = \<lparr>note_hash = ''h3'', title = ''C'', tags = [], content = ''body c''\<rparr>"

text \<open>
  Collaborators with a scripted upload: the upload call number \<open>i\<close> (from zero) has the
  outcome \<open>script i\<close>. The translation gives one block for every note.
\<close>

definition env_script :: "(nat \<Rightarrow> exn option) \<Rightarrow> collab" where
  "env_script script =
     \<lparr>parse_note = (\<lambda>n r. Inr [''block'']),
      upload_note = (\<lambda>i c n b. script i),
      get_notebook_database = (\<lambda>r t. ''db:'' @ t),
      get_notebook_page = (\<lambda>r t. ''page:'' @ t),
      count_notes = (\<lambda>p. 3),
      iter_notes = (\<lambda>p. [note_a, note_b, note_c]),
      path_stem = (\<lambda>p. p)\<rparr>"

text \<open>The first \<open>k\<close> upload calls fail with the upload error, the later ones succeed.\<close>

definition fail_first :: "nat \<Rightarrow> nat \<Rightarrow> exn option" where
  "fail_first k i = (if i < k then Some (NoteUploadFailException ''503'') else None)"

text \<open>Collaborators whose translation raises the given exception for every note.\<close>

definition env_parse_raises :: "exn \<Rightarrow> collab" where
  "env_parse_raises e = (env_script (fail_first 0))\<lparr>parse_note := (\<lambda>n r. Inl e)\<rparr>"

text \<open>Collaborators whose translation gives no block.\<close>

definition env_no_blocks :: collab where
  "env_no_blocks = (env_script (fail_first 0))\<lparr>parse_note := (\<lambda>n r. Inr [])\<rparr>"

text \<open>
  An uploader with the forced tag \<^verbatim>\<open>evernote\<close>, parallelism 2, one slot taken, an empty
  ledger on the path \<^verbatim>\<open>done.txt\<close> (no file yet, and every path can be opened for
  appending), and \<open>note_a\<close> at address 0.
\<close>

definition w_start :: state where
  "w_start =
     \<lparr>import_root = Some ''root'', mode = ''DB'', rules = \<lparr>tag = Some ''evernote''\<rparr>,
      done_hashes = DoneFile ''done.txt'' {}, notebook_notes_count = Some 3,
      parallelism = 2, semaphore = 1, fs = Map.empty, append_error = Map.empty,
      heap = [note_a], trace = []\<rparr>"

text \<open>
  The same uploader when its ledger file cannot be opened for appending: \<^verbatim>\<open>open\<close>
  raises a \<^verbatim>\<open>PermissionError\<close>.
\<close>

definition w_denied :: state where
  "w_denied = w_start\<lparr>append_error := [''done.txt'' \<mapsto> Exception ''Permission denied'']\<rparr>"

text \<open>The same uploader between two notebooks: both slots free, nothing on the heap.\<close>

definition w_idle :: state where
  "w_idle = w_start\<lparr>semaphore := 2, heap := []\<rparr>"

text \<open>
  A schedule for the three notes with two slots: two workers are started, the first one
  ends, the third is started, the other two end, and the coordinator awaits and returns.
\<close>

definition schedule_3 :: "action list" where
  "schedule_3 =
     [Submit, Submit, Run 0, Submit, Run 0, Run 0, EndLoop, AwaitAcquire, AwaitAcquire,
      AwaitRelease]"

text \<open>
  The threads of \<^verbatim>\<open>upload_notebook\<close> after the first \<open>Submit\<close>: the coordinator is in
  its loop with two notes to go, and one worker runs on \<open>note_a\<close> at address 0.
\<close>

definition sys_one_worker :: sys where
  "sys_one_worker =
     \<lparr>shared = w_start, coord = Submitting [note_b, note_c] 2, notebook_root = Some ''nb'',
      threads = [(0, 1)], uncaught = []\<rparr>"

text \<open>The idle uploader of a dry run: there is no import root.\<close>

definition w_dry :: state where
  "w_dry = w_idle\<lparr>import_root := None\<rparr>"

section \<open>The retry loop\<close>

lemma upload_count_trace [simp]:
  "upload_count (w\<lparr>trace := t\<rparr>) = length (filter is_UploadCall t)"
  by (simp add: upload_count_def)

lemma map_upt_Suc_shift: "map f [0..<Suc k] = f 0 # map (\<lambda>i. f (Suc i)) [0..<k]"
  by (simp add: upt_conv_Cons map_Suc_upt [symmetric] del: upt_Suc)

lemma retry_prefix:
  "a + k \<le> 4 \<Longrightarrow>
   \<forall>i<k. \<exists>m. upload_note env (upload_count w + i) root note blocks = Some (NoteUploadFailException m) \<Longrightarrow>
   upload_attempts env root note blocks [a..<5] w =
   upload_attempts env root note blocks [a + k..<5]
     (w\<lparr>trace := trace w @ concat (map (\<lambda>i.
        [UploadCall root note blocks (upload_note env (upload_count w + i) root note blocks),
         Log WARNING (msg_retrying note)]) [0..<k])\<rparr>)"
proof (induction k arbitrary: a w)
  case 0
  then show ?case by simp
next
  case (Suc k)
  from Suc.prems(2) obtain m where m: "upload_note env (upload_count w) root note blocks = Some (NoteUploadFailException m)"
    by force
  let ?w1 = "log_record WARNING (msg_retrying note)
       (w\<lparr>trace := trace w @ [UploadCall root note blocks (Some (NoteUploadFailException m))]\<rparr>)"
  have cnt: "upload_count ?w1 = Suc (upload_count w)"
    by (simp add: log_record_def upload_count_def)
  have a: "a < 5" "a \<noteq> 4" using Suc.prems(1) by auto
  have step: "upload_attempts env root note blocks [a..<5] w = upload_attempts env root note blocks [Suc a..<5] ?w1"
    using a m by (simp add: upt_conv_Cons Let_def)
  have ih: "upload_attempts env root note blocks [Suc a..<5] ?w1 =
     upload_attempts env root note blocks [Suc a + k..<5]
     (?w1\<lparr>trace := trace ?w1 @ concat (map (\<lambda>i.
        [UploadCall root note blocks (upload_note env (upload_count ?w1 + i) root note blocks),
         Log WARNING (msg_retrying note)]) [0..<k])\<rparr>)"
    apply (rule Suc.IH)
    using Suc.prems by (auto simp: cnt)
  show ?case
    unfolding step ih
    using m by (simp add: map_upt_Suc_shift cnt log_record_def upload_count_def del: upt_Suc)
qed

lemma upload_count_retry_events:
  "length (filter is_UploadCall (concat (map (\<lambda>i. [UploadCall root note blocks (f i), Log WARNING m]) [0..<k]))) = k"
  by (induction k) auto

lemma module_upload_note_after:
  assumes "k \<le> 4"
    and "\<forall>i<k. \<exists>m. upload_note env (upload_count w + i) root note blocks = Some (NoteUploadFailException m)"
  shows "module_upload_note env root note blocks w =
    upload_attempts env root note blocks (k # [Suc k..<5])
     (w\<lparr>trace := trace w @ concat (map (\<lambda>i.
        [UploadCall root note blocks (upload_note env (upload_count w + i) root note blocks),
         Log WARNING (msg_retrying note)]) [0..<k])\<rparr>)"
proof -
  have "0 + k \<le> 4" using assms(1) by simp
  from retry_prefix [OF this assms(2)] show ?thesis
    using assms(1) by (simp add: module_upload_note_def upt_conv_Cons del: upt_Suc)
qed

lemma module_upload_note_success:
  assumes "k < 5"
    and "\<forall>i<k. \<exists>m. upload_note env (upload_count w + i) root note blocks = Some (NoteUploadFailException m)"
    and "upload_note env (upload_count w + k) root note blocks = None"
  shows "module_upload_note env root note blocks w =
    (Inr (), w\<lparr>trace := trace w @ concat (map (\<lambda>i.
        [UploadCall root note blocks (upload_note env (upload_count w + i) root note blocks),
         Log WARNING (msg_retrying note)]) [0..<k]) @ [UploadCall root note blocks None]\<rparr>)"
proof -
  have "k \<le> 4" using assms(1) by simp
  from module_upload_note_after [OF this assms(2)] show ?thesis
    using assms(3) [unfolded upload_count_def]
    by (simp add: Let_def upload_count_retry_events upload_count_def del: upt_Suc)
qed

lemma module_upload_note_other:
  assumes "k < 5"
    and "\<forall>i<k. \<exists>m. upload_note env (upload_count w + i) root note blocks = Some (NoteUploadFailException m)"
    and "upload_note env (upload_count w + k) root note blocks = Some e"
    and "\<not> isinstance_NoteUploadFailException e"
  shows "module_upload_note env root note blocks w =
    (Inl e, w\<lparr>trace := trace w @ concat (map (\<lambda>i.
        [UploadCall root note blocks (upload_note env (upload_count w + i) root note blocks),
         Log WARNING (msg_retrying note)]) [0..<k]) @ [UploadCall root note blocks (Some e)]\<rparr>)"
proof -
  have "k \<le> 4" using assms(1) by simp
  from module_upload_note_after [OF this assms(2)] show ?thesis
    using assms(3) [unfolded upload_count_def] assms(4)
    by (simp add: Let_def upload_count_retry_events upload_count_def del: upt_Suc)
qed

lemma module_upload_note_exhausted:
  assumes "\<forall>i<5. \<exists>m. upload_note env (upload_count w + i) root note blocks = Some (NoteUploadFailException m)"
  shows "module_upload_note env root note blocks w =
    (Inl (the (upload_note env (upload_count w + 4) root note blocks)),
     w\<lparr>trace := trace w @ concat (map (\<lambda>i.
        [UploadCall root note blocks (upload_note env (upload_count w + i) root note blocks),
         Log WARNING (msg_retrying note)]) [0..<4])
        @ [UploadCall root note blocks (upload_note env (upload_count w + 4) root note blocks)]\<rparr>)"
proof -
  have a: "4 \<le> (4::nat)" by simp
  have b: "\<forall>i<4. \<exists>m. upload_note env (upload_count w + i) root note blocks = Some (NoteUploadFailException m)"
    using assms by auto
  obtain m where c: "upload_note env (upload_count w + 4) root note blocks = Some (NoteUploadFailException m)"
    using assms by force
  from module_upload_note_after [OF a b] show ?thesis
    using c [unfolded upload_count_def]
    by (simp add: Let_def upload_count_retry_events upload_count_def del: upt_Suc upt.simps)
qed

section \<open>The pipeline of one note\<close>

lemma apply_tag_rule_keeps [simp]:
  "note_hash (apply_tag_rule r n) = note_hash n"
  "title (apply_tag_rule r n) = title n"
  "content (apply_tag_rule r n) = content n"
  by (simp_all add: apply_tag_rule_def split: option.splits)

lemma upload_note_reaches_upload:
  assumes "\<not> DoneFile_contains (done_hashes w) (note_hash note)"
    and "parse_note env (apply_tag_rule (rules w) note) (rules w) = Inr blocks"
    and "blocks \<noteq> []"
  shows "EnexUploader_upload_note env (Some root) note idx w =
    (case module_upload_note env root (apply_tag_rule (rules w) note) blocks
        (w\<lparr>trace := trace w @
           [Log DEBUG (msg_parsing (apply_tag_rule (rules w) note)),
            ParseCall (apply_tag_rule (rules w) note),
            Log INFO (msg_uploading idx (notebook_notes_count w) (apply_tag_rule (rules w) note))]\<rparr>) of
       (Inl e, w4) \<Rightarrow> (Inl e, apply_tag_rule (rules w) note, w4)
     | (Inr u, w4) \<Rightarrow>
         (fst (DoneFile_add (note_hash (apply_tag_rule (rules w) note)) w4),
          apply_tag_rule (rules w) note,
          snd (DoneFile_add (note_hash (apply_tag_rule (rules w) note)) w4)))"
  using assms
  by (simp add: EnexUploader_upload_note_def EnexUploader_parse_note_def Let_def log_record_def
        split: prod.splits sum.splits)

lemma DoneFile_add_fields [simp]:
  "trace (snd (DoneFile_add h w)) = trace w @ [LedgerAdd h]"
  "hashes_of (done_hashes (snd (DoneFile_add h w))) = insert h (hashes_of (done_hashes w))"
  "heap (snd (DoneFile_add h w)) = heap w"
  "semaphore (snd (DoneFile_add h w)) = semaphore w"
  "parallelism (snd (DoneFile_add h w)) = parallelism w"
  "rules (snd (DoneFile_add h w)) = rules w"
  "import_root (snd (DoneFile_add h w)) = import_root w"
  "mode (snd (DoneFile_add h w)) = mode w"
  "notebook_notes_count (snd (DoneFile_add h w)) = notebook_notes_count w"
  "append_error (snd (DoneFile_add h w)) = append_error w"
  by (simp_all add: DoneFile_add_def Let_def split: done_store.splits option.splits)

text \<open>
  The outcome of \<^verbatim>\<open>add\<close> and what it does to the ledger and to the file system, for
  the two kinds of ledger and the two outcomes of \<^verbatim>\<open>open\<close>.
\<close>

lemma DoneFile_add_PySet:
  assumes "done_hashes w = PySet s"
  shows "fst (DoneFile_add h w) = Inr ()"
    "done_hashes (snd (DoneFile_add h w)) = PySet (insert h s)"
    "fs (snd (DoneFile_add h w)) = fs w"
  using assms by (simp_all add: DoneFile_add_def)

lemma DoneFile_add_written:
  assumes "done_hashes w = DoneFile p s" and "append_error w p = None"
  shows "fst (DoneFile_add h w) = Inr ()"
    "done_hashes (snd (DoneFile_add h w)) = DoneFile p (insert h s)"
    "fs (snd (DoneFile_add h w)) = append_file p (h @ [CHR 0x0A]) (fs w)"
  using assms by (simp_all add: DoneFile_add_def)

lemma DoneFile_add_raises:
  assumes "done_hashes w = DoneFile p s" and "append_error w p = Some e"
  shows "fst (DoneFile_add h w) = Inl e"
    "done_hashes (snd (DoneFile_add h w)) = DoneFile p (insert h s)"
    "fs (snd (DoneFile_add h w)) = fs w"
  using assms by (simp_all add: DoneFile_add_def)

text \<open>
  Claim C1. Take a note that reaches the upload step with a destination container: its
  hash is not in the ledger and its translation gives blocks. If the first \<open>k\<close> upload
  calls fail with the upload error and call \<open>k\<close> returns, for \<open>k < 5\<close>, then there
  are exactly \<open>k + 1\<close> upload calls, with a warning after each failed one and nothing
  else in between, and \<^verbatim>\<open>add\<close> is called on the ledger right after the call that
  returned. The hash of the note is then in the in-memory set of the ledger; with a
  ledger on a file, the hash and a newline are appended to the file, nothing else in the
  file system changes, and \<^verbatim>\<open>upload_note\<close> returns normally. Only when the file
  cannot be opened for appending does the exception of \<^verbatim>\<open>open\<close> leave
  \<^verbatim>\<open>upload_note\<close>, with the file system as it was. If five calls fail, there are
  exactly five calls, the exception of the fifth one leaves \<^verbatim>\<open>upload_note\<close>, and the
  ledger and the file system are as before.
\<close>

theorem retry_bound:
  assumes "\<not> DoneFile_contains (done_hashes w) (note_hash note)"
    and "parse_note env (apply_tag_rule (rules w) note) (rules w) = Inr blocks"
    and "blocks \<noteq> []"
    and "\<forall>i<k. \<exists>m. upload_note env (upload_count w + i) root (apply_tag_rule (rules w) note) blocks
            = Some (NoteUploadFailException m)"
    and run: "EnexUploader_upload_note env (Some root) note idx w = (r, note', w')"
  shows
    "(k < 5 \<and> upload_note env (upload_count w + k) root (apply_tag_rule (rules w) note) blocks = None \<longrightarrow>
       upload_count w' = upload_count w + (k + 1) \<and>
       trace w' = trace w @
         [Log DEBUG (msg_parsing note'), ParseCall note',
          Log INFO (msg_uploading idx (notebook_notes_count w) note')] @
         concat (map (\<lambda>i.
           [UploadCall root note' blocks (upload_note env (upload_count w + i) root note' blocks),
            Log WARNING (msg_retrying note')]) [0..<k]) @
         [UploadCall root note' blocks None, LedgerAdd (note_hash note)] \<and>
       hashes_of (done_hashes w') = insert (note_hash note) (hashes_of (done_hashes w)) \<and>
       (case done_hashes w of
          PySet s \<Rightarrow>
            r = Inr () \<and> done_hashes w' = PySet (insert (note_hash note) s) \<and> fs w' = fs w
        | DoneFile p s \<Rightarrow>
            done_hashes w' = DoneFile p (insert (note_hash note) s) \<and>
            (case append_error w p of
               None \<Rightarrow>
                 r = Inr () \<and>
                 fs w' = (fs w)(p \<mapsto> file_text p (fs w) @ note_hash note @ [CHR 0x0A])
             | Some e \<Rightarrow> r = Inl e \<and> fs w' = fs w))) \<and>
    (k = 5 \<longrightarrow>
       (\<exists>m. r = Inl (NoteUploadFailException m)) \<and>
       upload_count w' = upload_count w + 5 \<and>
       trace w' = trace w @
         [Log DEBUG (msg_parsing note'), ParseCall note',
          Log INFO (msg_uploading idx (notebook_notes_count w) note')] @
         concat (map (\<lambda>i.
           [UploadCall root note' blocks (upload_note env (upload_count w + i) root note' blocks),
            Log WARNING (msg_retrying note')]) [0..<4]) @
         [UploadCall root note' blocks (upload_note env (upload_count w + 4) root note' blocks)] \<and>
       done_hashes w' = done_hashes w \<and> fs w' = fs w)"
proof (intro conjI impI)
  let ?n = "apply_tag_rule (rules w) note"
  let ?w3 = "w\<lparr>trace := trace w @
           [Log DEBUG (msg_parsing ?n), ParseCall ?n,
            Log INFO (msg_uploading idx (notebook_notes_count w) ?n)]\<rparr>"
  have cnt: "upload_count ?w3 = upload_count w"
    by (simp add: upload_count_def)
  have fails: "\<forall>i<k. \<exists>m. upload_note env (upload_count ?w3 + i) root ?n blocks
            = Some (NoteUploadFailException m)"
    using assms(4) unfolding cnt .
  note shape = upload_note_reaches_upload [OF assms(1-3), of root idx]
  {
    assume a: "k < 5 \<and> upload_note env (upload_count w + k) root ?n blocks = None"
    then have k: "k < 5" and s': "upload_note env (upload_count ?w3 + k) root ?n blocks = None"
      unfolding cnt by simp_all
    let ?w4 = "?w3\<lparr>trace := trace ?w3 @ concat (map (\<lambda>i.
        [UploadCall root ?n blocks (upload_note env (upload_count ?w3 + i) root ?n blocks),
         Log WARNING (msg_retrying ?n)]) [0..<k]) @ [UploadCall root ?n blocks None]\<rparr>"
    have res: "(r, note', w') =
       (fst (DoneFile_add (note_hash ?n) ?w4), ?n, snd (DoneFile_add (note_hash ?n) ?w4))"
      using run [symmetric] unfolding shape module_upload_note_success [OF k fails s'] by simp
    then have r: "r = fst (DoneFile_add (note_hash ?n) ?w4)" and n: "note' = ?n"
      and w': "w' = snd (DoneFile_add (note_hash ?n) ?w4)"
      by auto
    show "upload_count w' = upload_count w + (k + 1)"
      unfolding w' by (simp add: upload_count_def upload_count_retry_events)
    show "trace w' = trace w @
         [Log DEBUG (msg_parsing note'), ParseCall note',
          Log INFO (msg_uploading idx (notebook_notes_count w) note')] @
         concat (map (\<lambda>i.
           [UploadCall root note' blocks (upload_note env (upload_count w + i) root note' blocks),
            Log WARNING (msg_retrying note')]) [0..<k]) @
         [UploadCall root note' blocks None, LedgerAdd (note_hash note)]"
      unfolding w' n cnt by simp
    show "hashes_of (done_hashes w') = insert (note_hash note) (hashes_of (done_hashes w))"
      unfolding w' by simp
    show "case done_hashes w of
          PySet s \<Rightarrow>
            r = Inr () \<and> done_hashes w' = PySet (insert (note_hash note) s) \<and> fs w' = fs w
        | DoneFile p s \<Rightarrow>
            done_hashes w' = DoneFile p (insert (note_hash note) s) \<and>
            (case append_error w p of
               None \<Rightarrow>
                 r = Inr () \<and>
                 fs w' = (fs w)(p \<mapsto> file_text p (fs w) @ note_hash note @ [CHR 0x0A])
             | Some e \<Rightarrow> r = Inl e \<and> fs w' = fs w)"
    proof (cases "done_hashes w")
      case (PySet s)
      then have "done_hashes ?w4 = PySet s" by simp
      from DoneFile_add_PySet [OF this, of "note_hash ?n"] PySet show ?thesis
        unfolding r w' by simp
    next
      case (DoneFile p s)
      then have d: "done_hashes ?w4 = DoneFile p s" by simp
      show ?thesis
      proof (cases "append_error w p")
        case None
        then have "append_error ?w4 p = None" by simp
        from DoneFile_add_written [OF d this, of "note_hash ?n"] DoneFile None show ?thesis
          unfolding r w' by (simp add: append_file_def file_text_def)
      next
        case (Some e)
        then have "append_error ?w4 p = Some e" by simp
        from DoneFile_add_raises [OF d this, of "note_hash ?n"] DoneFile Some show ?thesis
          unfolding r w' by simp
      qed
    qed
  }
  {
    assume k: "k = 5"
    have f5: "\<forall>i<5. \<exists>m. upload_note env (upload_count ?w3 + i) root ?n blocks
            = Some (NoteUploadFailException m)"
      using fails k by simp
    obtain m where m: "upload_note env (upload_count w + 4) root ?n blocks = Some (NoteUploadFailException m)"
      using assms(4) k by force
    have res: "(r, note', w') = (Inl (NoteUploadFailException m), ?n,
       ?w3\<lparr>trace := trace ?w3 @ concat (map (\<lambda>i.
        [UploadCall root ?n blocks (upload_note env (upload_count ?w3 + i) root ?n blocks),
         Log WARNING (msg_retrying ?n)]) [0..<4])
        @ [UploadCall root ?n blocks (upload_note env (upload_count ?w3 + 4) root ?n blocks)]\<rparr>)"
      using run [symmetric] m unfolding shape module_upload_note_exhausted [OF f5] cnt by simp
    then have r: "r = Inl (NoteUploadFailException m)" and n: "note' = ?n" and w': "w' = 
       ?w3\<lparr>trace := trace ?w3 @ concat (map (\<lambda>i.
        [UploadCall root ?n blocks (upload_note env (upload_count ?w3 + i) root ?n blocks),
         Log WARNING (msg_retrying ?n)]) [0..<4])
        @ [UploadCall root ?n blocks (upload_note env (upload_count ?w3 + 4) root ?n blocks)]\<rparr>"
      by auto
    show "\<exists>m. r = Inl (NoteUploadFailException m)" using r by blast
    show "upload_count w' = upload_count w + 5"
      unfolding w' by (simp add: upload_count_def upload_count_retry_events del: upt_Suc upt.simps)
    show "trace w' = trace w @
         [Log DEBUG (msg_parsing note'), ParseCall note',
          Log INFO (msg_uploading idx (notebook_notes_count w) note')] @
         concat (map (\<lambda>i.
           [UploadCall root note' blocks (upload_note env (upload_count w + i) root note' blocks),
            Log WARNING (msg_retrying note')]) [0..<4]) @
         [UploadCall root note' blocks (upload_note env (upload_count w + 4) root note' blocks)]"
      unfolding w' n cnt by (simp del: upt_Suc upt.simps)
    show "done_hashes w' = done_hashes w" unfolding w' by simp
    show "fs w' = fs w" unfolding w' by simp
  }
qed

theorem retry_bound_witness:
  "fst (EnexUploader_upload_note (env_script (fail_first 2)) (Some ''nb'') note_a 1 w_start) = Inr ()
   \<and> upload_count (snd (snd (EnexUploader_upload_note (env_script (fail_first 2)) (Some ''nb'') note_a 1 w_start))) = 3
   \<and> done_hashes (snd (snd (EnexUploader_upload_note (env_script (fail_first 2)) (Some ''nb'') note_a 1 w_start)))
       = DoneFile ''done.txt'' {''h1''}
   \<and> fs (snd (snd (EnexUploader_upload_note (env_script (fail_first 2)) (Some ''nb'') note_a 1 w_start)))
       = [''done.txt'' \<mapsto> ''h1'' @ [CHR 0x0A]]
   \<and> fst (EnexUploader_upload_note (env_script (fail_first 2)) (Some ''nb'') note_a 1 w_denied)
       = Inl (Exception ''Permission denied'')
   \<and> upload_count (snd (snd (EnexUploader_upload_note (env_script (fail_first 2)) (Some ''nb'') note_a 1 w_denied))) = 3
   \<and> fs (snd (snd (EnexUploader_upload_note (env_script (fail_first 2)) (Some ''nb'') note_a 1 w_denied)))
       = Map.empty
   \<and> (\<exists>m. fst (EnexUploader_upload_note (env_script (fail_first 5)) (Some ''nb'') note_a 1 w_start)
       = Inl (NoteUploadFailException m))
   \<and> upload_count (snd (snd (EnexUploader_upload_note (env_script (fail_first 5)) (Some ''nb'') note_a 1 w_start))) = 5
   \<and> done_hashes (snd (snd (EnexUploader_upload_note (env_script (fail_first 5)) (Some ''nb'') note_a 1 w_start)))
       = DoneFile ''done.txt'' {}
   \<and> fs (snd (snd (EnexUploader_upload_note (env_script (fail_first 5)) (Some ''nb'') note_a 1 w_start)))
       = Map.empty"
proof -
  let ?X = "EnexUploader_upload_note (env_script (fail_first 2)) (Some ''nb'') note_a 1 w_start"
  let ?D = "EnexUploader_upload_note (env_script (fail_first 2)) (Some ''nb'') note_a 1 w_denied"
  let ?Y = "EnexUploader_upload_note (env_script (fail_first 5)) (Some ''nb'') note_a 1 w_start"
  have x: "?X = (fst ?X, fst (snd ?X), snd (snd ?X))" by simp
  have d: "?D = (fst ?D, fst (snd ?D), snd (snd ?D))" by simp
  have y: "?Y = (fst ?Y, fst (snd ?Y), snd (snd ?Y))" by simp
  have h1: "\<not> DoneFile_contains (done_hashes w_start) (note_hash note_a)"
    by (simp add: DoneFile_contains_def w_start_def)
  have h2: "parse_note (env_script sc) (apply_tag_rule (rules w_start) note_a) (rules w_start) = Inr [''block'']" for sc
    by (simp add: env_script_def)
  have h3: "[''block''] \<noteq> ([] :: block list)" by simp
  have f2: "\<forall>i<2. \<exists>m. upload_note (env_script (fail_first 2)) (upload_count w_start + i) ''nb''
      (apply_tag_rule (rules w_start) note_a) [''block''] = Some (NoteUploadFailException m)"
    by (simp add: env_script_def fail_first_def upload_count_def w_start_def)
  have f5: "\<forall>i<5. \<exists>m. upload_note (env_script (fail_first 5)) (upload_count w_start + i) ''nb''
      (apply_tag_rule (rules w_start) note_a) [''block''] = Some (NoteUploadFailException m)"
    by (simp add: env_script_def fail_first_def upload_count_def w_start_def)
  have s2: "upload_note (env_script (fail_first 2)) (upload_count w_start + 2) ''nb''
      (apply_tag_rule (rules w_start) note_a) [''block''] = None"
    by (simp add: env_script_def fail_first_def)
  have c0: "upload_count w_start = 0" "hashes_of (done_hashes w_start) = {}"
      "note_hash note_a = ''h1''" "done_hashes w_start = DoneFile ''done.txt'' {}"
      "append_error w_start ''done.txt'' = None" "fs w_start = Map.empty"
      "file_text ''done.txt'' Map.empty = []"
    by (simp_all add: upload_count_def w_start_def note_a_def file_text_def)
  have dn: "done_hashes w_denied = done_hashes w_start" "rules w_denied = rules w_start"
      "upload_count w_denied = upload_count w_start" "fs w_denied = fs w_start"
      "append_error w_denied ''done.txt'' = Some (Exception ''Permission denied'')"
    by (simp_all add: w_denied_def upload_count_def)
  from retry_bound [OF h1 h2 h3 f2 x] s2
  have a: "fst ?X = Inr () \<and> upload_count (snd (snd ?X)) = 3
     \<and> done_hashes (snd (snd ?X)) = DoneFile ''done.txt'' {''h1''}
     \<and> fs (snd (snd ?X)) = [''done.txt'' \<mapsto> ''h1'' @ [CHR 0x0A]]"
    by (simp add: c0)
  from retry_bound [OF h1 [folded dn(1)] h2 [folded dn(2)] h3 f2 [folded dn(2,3)] d] s2
  have c: "fst ?D = Inl (Exception ''Permission denied'') \<and> upload_count (snd (snd ?D)) = 3
     \<and> fs (snd (snd ?D)) = Map.empty"
    by (simp add: c0 dn)
  from retry_bound [OF h1 h2 h3 f5 y]
  have b: "(\<exists>m. fst ?Y = Inl (NoteUploadFailException m)) \<and> upload_count (snd (snd ?Y)) = 5
     \<and> done_hashes (snd (snd ?Y)) = DoneFile ''done.txt'' {} \<and> fs (snd (snd ?Y)) = Map.empty"
    by (simp add: c0)
  from a b c show ?thesis by simp
qed

text \<open>
  Claim C2. When the hash of the note is in the ledger, \<^verbatim>\<open>upload_note\<close> returns at
  once: the note is as it was, and the state differs from the one before only by one
  debug record. So the trace gains no call of the translation and no call of the
  upload, and the ledger and its file are unchanged.
\<close>

theorem dedup_skip:
  assumes "DoneFile_contains (done_hashes w) (note_hash note)"
  shows "EnexUploader_upload_note env nb note idx w =
    (Inr (), note, w\<lparr>trace := trace w @ [Log DEBUG (msg_already_uploaded note)]\<rparr>)"
  using assms by (simp add: EnexUploader_upload_note_def log_record_def)

theorem dedup_skip_witness:
  "EnexUploader_upload_note (env_script (fail_first 0)) (Some ''nb'') note_a 1
     (w_start\<lparr>done_hashes := DoneFile ''done.txt'' {''h1''}\<rparr>) =
   (Inr (), note_a,
    w_start\<lparr>done_hashes := DoneFile ''done.txt'' {''h1''},
      trace := [Log DEBUG (msg_already_uploaded note_a)]\<rparr>)"
proof -
  have h: "DoneFile_contains (done_hashes (w_start\<lparr>done_hashes := DoneFile ''done.txt'' {''h1''}\<rparr>))
      (note_hash note_a)"
    by (simp add: DoneFile_contains_def note_a_def)
  from dedup_skip [OF h, of "env_script (fail_first 0)" "Some ''nb''" 1]
  show ?thesis by (simp add: w_start_def)
qed

text \<open>
  Claim C4. When the translation of a note whose hash is not in the ledger raises an
  error (an exception of class \<^verbatim>\<open>Exception\<close>), \<^verbatim>\<open>upload_note\<close> returns normally: the
  exception does not leave it. The trace gains the call of the translation, an error
  record with the title of the note, the debug record of the exception and the debug
  record of the skip, and nothing else: no upload and no addition to the ledger. All
  the rest of the state, the ledger and its file among it, is unchanged.
\<close>

theorem translate_error_skips:
  assumes "\<not> DoneFile_contains (done_hashes w) (note_hash note)"
    and "parse_note env (apply_tag_rule (rules w) note) (rules w) = Inl e"
    and "isinstance_Exception e"
  shows "EnexUploader_upload_note env nb note idx w =
    (Inr (), apply_tag_rule (rules w) note,
     w\<lparr>trace := trace w @
       [Log DEBUG (msg_parsing note),
        ParseCall (apply_tag_rule (rules w) note),
        Log ERROR (''Failed to parse note '' @ quoted (title note)),
        Log DEBUG (exn_str e),
        Log DEBUG (msg_no_blocks note)]\<rparr>)"
  using assms
  by (simp add: EnexUploader_upload_note_def EnexUploader_parse_note_def Let_def log_record_def
        msg_parsing_def msg_no_blocks_def msg_parse_failed_def)

theorem translate_error_skips_witness:
  "EnexUploader_upload_note (env_parse_raises (Exception ''bad ENML'')) (Some ''nb'') note_b 2 w_start =
   (Inr (), note_b,
    w_start\<lparr>trace :=
       [Log DEBUG (msg_parsing note_b), ParseCall note_b,
        Log ERROR (''Failed to parse note '' @ quoted ''B''),
        Log DEBUG ''bad ENML'', Log DEBUG (msg_no_blocks note_b)]\<rparr>)"
proof -
  have h1: "\<not> DoneFile_contains (done_hashes w_start) (note_hash note_b)"
    by (simp add: DoneFile_contains_def w_start_def)
  have t: "apply_tag_rule (rules w_start) note_b = note_b"
    by (simp add: apply_tag_rule_def w_start_def note_b_def)
  have h2: "parse_note (env_parse_raises (Exception ''bad ENML'')) (apply_tag_rule (rules w_start) note_b)
      (rules w_start) = Inl (Exception ''bad ENML'')"
    by (simp add: env_parse_raises_def)
  have h3: "isinstance_Exception (Exception ''bad ENML'')" by simp
  from translate_error_skips [OF h1 h2 h3, of "Some ''nb''" 2]
  show ?thesis by (simp add: t) (simp add: w_start_def note_b_def)
qed

text \<open>
  Claim C8. In \<^verbatim>\<open>_upload_note\<close>, an upload call that raises an exception other than
  the upload error ends the loop at once: the exception leaves \<^verbatim>\<open>_upload_note\<close>, the
  call is the last event, and no warning follows it. This holds at the first attempt
  (\<open>j = 0\<close>: one call, no warning at all) and at any later attempt reached through
  \<open>j\<close> failures with the upload error.
\<close>

theorem other_exception_not_retried:
  assumes "j < 5"
    and "\<forall>i<j. \<exists>m. upload_note env (upload_count w + i) root note blocks
            = Some (NoteUploadFailException m)"
    and "upload_note env (upload_count w + j) root note blocks = Some e"
    and "\<not> isinstance_NoteUploadFailException e"
  shows "module_upload_note env root note blocks w =
    (Inl e,
     w\<lparr>trace := trace w @
        concat (map (\<lambda>i.
          [UploadCall root note blocks (upload_note env (upload_count w + i) root note blocks),
           Log WARNING (msg_retrying note)]) [0..<j]) @
        [UploadCall root note blocks (Some e)]\<rparr>)"
  using assms by (rule module_upload_note_other)

theorem other_exception_not_retried_witness:
  "module_upload_note (env_script (\<lambda>i. Some (Exception ''boom''))) ''nb'' note_a [''block''] w_start =
   (Inl (Exception ''boom''),
    w_start\<lparr>trace := [UploadCall ''nb'' note_a [''block''] (Some (Exception ''boom''))]\<rparr>)"
proof -
  have h1: "(0::nat) < 5" by simp
  have h2: "\<forall>i<0. \<exists>m. upload_note (env_script (\<lambda>i. Some (Exception ''boom''))) (upload_count w_start + i)
      ''nb'' note_a [''block''] = Some (NoteUploadFailException m)" by simp
  have h3: "upload_note (env_script (\<lambda>i. Some (Exception ''boom''))) (upload_count w_start + 0)
      ''nb'' note_a [''block''] = Some (Exception ''boom'')"
    by (simp add: env_script_def)
  have h4: "\<not> isinstance_NoteUploadFailException (Exception ''boom'')" by simp
  from other_exception_not_retried [OF h1 h2 h3 h4]
  show ?thesis by (simp add: w_start_def)
qed

section \<open>All the outcomes of the pipeline\<close>

lemma dedup_shape:
  assumes "DoneFile_contains (done_hashes w) (note_hash note)"
  shows "EnexUploader_upload_note env nb note idx w =
    (Inr (), note, w\<lparr>trace := trace w @ [Log DEBUG (msg_already_uploaded note)]\<rparr>)"
  using assms by (simp add: EnexUploader_upload_note_def log_record_def)

lemma retry_events_plain:
  "\<forall>e\<in>set (concat (map (\<lambda>i. [UploadCall root note blocks (f i), Log WARNING m]) [0..<k])).
     \<not> is_LedgerAdd e \<and> \<not> is_ParseCall e \<and>
     (is_UploadCall e \<longrightarrow> (\<exists>x. e = UploadCall root note blocks x))"
  by (induction k) auto

lemma module_upload_note_cases:
  obtains (returns) k where "k < 5"
      "module_upload_note env root note blocks w =
        (Inr (), w\<lparr>trace := trace w @ concat (map (\<lambda>i.
          [UploadCall root note blocks (upload_note env (upload_count w + i) root note blocks),
           Log WARNING (msg_retrying note)]) [0..<k]) @ [UploadCall root note blocks None]\<rparr>)"
  | (raises) k e where "k < 5"
      "module_upload_note env root note blocks w =
        (Inl e, w\<lparr>trace := trace w @ concat (map (\<lambda>i.
          [UploadCall root note blocks (upload_note env (upload_count w + i) root note blocks),
           Log WARNING (msg_retrying note)]) [0..<k]) @ [UploadCall root note blocks (Some e)]\<rparr>)"
proof -
  let ?P = "\<lambda>i. \<exists>m. upload_note env (upload_count w + i) root note blocks
     = Some (NoteUploadFailException m)"
  show thesis
  proof (cases "\<forall>i<5. ?P i")
    case True
    then obtain m where m: "upload_note env (upload_count w + 4) root note blocks
        = Some (NoteUploadFailException m)"
      by force
    have "(4::nat) < 5" by simp
    from raises [OF this] module_upload_note_exhausted [OF True] m show thesis
      by simp
  next
    case False
    then obtain j where j: "j < 5 \<and> \<not> ?P j" by blast
    define k where "k = (LEAST j. j < 5 \<and> \<not> ?P j)"
    have kk: "k < 5 \<and> \<not> ?P k"
      unfolding k_def using j by (rule LeastI)
    have below: "\<forall>i<k. ?P i"
    proof (intro allI impI)
      fix i assume "i < k"
      then have "\<not> (i < 5 \<and> \<not> ?P i)"
        unfolding k_def by (rule not_less_Least)
      moreover have "i < 5" using \<open>i < k\<close> kk by simp
      ultimately show "?P i" by blast
    qed
    have k5: "k < 5" using kk by simp
    show thesis
    proof (cases "upload_note env (upload_count w + k) root note blocks")
      case None
      from returns [OF k5] module_upload_note_success [OF k5 below None] show thesis
        by simp
    next
      case (Some e)
      with kk have "\<not> isinstance_NoteUploadFailException e"
        by (cases e) auto
      from raises [OF k5] module_upload_note_other [OF k5 below Some this] show thesis
        by simp
    qed
  qed
qed

text \<open>
  What \<^verbatim>\<open>_upload_note\<close> leaves behind, whatever the collaborator does: new events at
  the end of the trace and nothing else. The new events are upload calls for this note
  and warnings, the last of them is an upload call, and it is a successful one exactly
  when \<^verbatim>\<open>_upload_note\<close> returns normally.
\<close>

lemma module_upload_note_effect:
  assumes "module_upload_note env root note blocks w = (r, w')"
  obtains pre x where
    "w' = w\<lparr>trace := trace w @ pre @ [UploadCall root note blocks x]\<rparr>"
    "\<forall>e\<in>set pre. \<not> is_LedgerAdd e \<and> \<not> is_ParseCall e \<and>
       (is_UploadCall e \<longrightarrow> (\<exists>y. e = UploadCall root note blocks y))"
    "r = (case x of None \<Rightarrow> Inr () | Some e \<Rightarrow> Inl e)"
proof (cases rule: module_upload_note_cases [of env root "note" blocks w])
  case (returns k)
  with assms have r: "r = Inr ()" and w': "w' = w\<lparr>trace := trace w @ concat (map (\<lambda>i.
          [UploadCall root note blocks (upload_note env (upload_count w + i) root note blocks),
           Log WARNING (msg_retrying note)]) [0..<k]) @ [UploadCall root note blocks None]\<rparr>"
    by auto
  show thesis
    by (rule that [OF w' retry_events_plain]) (simp add: r)
next
  case (raises k e)
  with assms have r: "r = Inl e" and w': "w' = w\<lparr>trace := trace w @ concat (map (\<lambda>i.
          [UploadCall root note blocks (upload_note env (upload_count w + i) root note blocks),
           Log WARNING (msg_retrying note)]) [0..<k]) @ [UploadCall root note blocks (Some e)]\<rparr>"
    by auto
  show thesis
    by (rule that [OF w' retry_events_plain]) (simp add: r)
qed

text \<open>
  The same for \<^verbatim>\<open>upload_note\<close>. Either the ledger is not touched: the state differs
  only by new events, none of them an addition to the ledger. Or the note went through:
  there is a destination container, the hash was not in the ledger, the last new events
  are a successful upload call for the note and the addition of its hash, and the
  outcome and the state are the ones that \<^verbatim>\<open>add\<close> makes of the state before it.
\<close>

lemma upload_note_effect:
  assumes "EnexUploader_upload_note env nb note idx w = (r, note', w')"
  obtains (untouched) ev where
      "w' = w\<lparr>trace := trace w @ ev\<rparr>"
      "\<forall>e\<in>set ev. \<not> is_LedgerAdd e"
      "\<forall>e\<in>set ev. is_UploadCall e \<longrightarrow>
         nb \<noteq> None \<and> \<not> DoneFile_contains (done_hashes w) (note_hash note) \<and>
         (\<exists>c b y. e = UploadCall c note' b y)"
      "note_hash note' = note_hash note"
  | (added) root blocks pre where
      "nb = Some root"
      "\<not> DoneFile_contains (done_hashes w) (note_hash note)"
      "note' = apply_tag_rule (rules w) note"
      "parse_note env note' (rules w) = Inr blocks" "blocks \<noteq> []"
      "r = fst (DoneFile_add (note_hash note)
              (w\<lparr>trace := trace w @ pre @ [UploadCall root note' blocks None]\<rparr>))"
      "w' = snd (DoneFile_add (note_hash note)
              (w\<lparr>trace := trace w @ pre @ [UploadCall root note' blocks None]\<rparr>))"
      "\<forall>e\<in>set pre. \<not> is_LedgerAdd e"
      "\<forall>e\<in>set pre. is_UploadCall e \<longrightarrow> (\<exists>c b y. e = UploadCall c note' b y)"
proof (cases "DoneFile_contains (done_hashes w) (note_hash note)")
  case True
  from assms [unfolded dedup_shape [OF True]]
  have "w' = w\<lparr>trace := trace w @ [Log DEBUG (msg_already_uploaded note)]\<rparr>" "note' = note"
    by auto
  then show thesis by (intro untouched [of "[Log DEBUG (msg_already_uploaded note)]"]) auto
next
  case notdone: False
  let ?n = "apply_tag_rule (rules w) note"
  show thesis
  proof (cases "parse_note env ?n (rules w)")
    case (Inl e)
    show thesis
    proof (cases "isinstance_Exception e")
      case True
      from assms notdone Inl True
      have "w' = w\<lparr>trace := trace w @ [Log DEBUG (msg_parsing ?n), ParseCall ?n,
          Log ERROR (msg_parse_failed ?n), Log DEBUG (exn_str e), Log DEBUG (msg_no_blocks ?n)]\<rparr>"
        "note' = ?n"
        by (auto simp: EnexUploader_upload_note_def EnexUploader_parse_note_def Let_def
            log_record_def)
      then show thesis
        by (intro untouched [of "[Log DEBUG (msg_parsing ?n), ParseCall ?n,
          Log ERROR (msg_parse_failed ?n), Log DEBUG (exn_str e), Log DEBUG (msg_no_blocks ?n)]"])
          auto
    next
      case False
      from assms notdone Inl False
      have "w' = w\<lparr>trace := trace w @ [Log DEBUG (msg_parsing ?n), ParseCall ?n]\<rparr>" "note' = ?n"
        by (auto simp: EnexUploader_upload_note_def EnexUploader_parse_note_def Let_def
            log_record_def)
      then show thesis
        by (intro untouched [of "[Log DEBUG (msg_parsing ?n), ParseCall ?n]"]) auto
    qed
  next
    case (Inr blocks)
    show thesis
    proof (cases "blocks = []")
      case True
      from assms notdone Inr True
      have "w' = w\<lparr>trace := trace w @ [Log DEBUG (msg_parsing ?n), ParseCall ?n,
          Log DEBUG (msg_no_blocks ?n)]\<rparr>" "note' = ?n"
        by (auto simp: EnexUploader_upload_note_def EnexUploader_parse_note_def Let_def
            log_record_def)
      then show thesis
        by (intro untouched [of "[Log DEBUG (msg_parsing ?n), ParseCall ?n,
          Log DEBUG (msg_no_blocks ?n)]"]) auto
    next
      case nonempty: False
      show thesis
      proof (cases nb)
        case None
        from assms notdone Inr nonempty None
        have "w' = w\<lparr>trace := trace w @ [Log DEBUG (msg_parsing ?n), ParseCall ?n]\<rparr>" "note' = ?n"
          by (auto simp: EnexUploader_upload_note_def EnexUploader_parse_note_def Let_def
              log_record_def)
        then show thesis
          by (intro untouched [of "[Log DEBUG (msg_parsing ?n), ParseCall ?n]"]) auto
      next
        case (Some root)
        let ?head = "[Log DEBUG (msg_parsing ?n), ParseCall ?n,
            Log INFO (msg_uploading idx (notebook_notes_count w) ?n)]"
        let ?w3 = "w\<lparr>trace := trace w @ ?head\<rparr>"
        obtain r0 w4 where m: "module_upload_note env root ?n blocks ?w3 = (r0, w4)"
          by (cases "module_upload_note env root ?n blocks ?w3") auto
        from module_upload_note_effect [OF m] obtain pre x where
          w4: "w4 = ?w3\<lparr>trace := trace ?w3 @ pre @ [UploadCall root ?n blocks x]\<rparr>"
          and pre: "\<forall>e\<in>set pre. \<not> is_LedgerAdd e \<and> \<not> is_ParseCall e \<and>
             (is_UploadCall e \<longrightarrow> (\<exists>y. e = UploadCall root ?n blocks y))"
          and r0: "r0 = (case x of None \<Rightarrow> Inr () | Some e \<Rightarrow> Inl e)"
          by blast
        note shape = upload_note_reaches_upload [OF notdone Inr nonempty, of root idx]
        show thesis
        proof (cases x)
          case None
          with assms [unfolded Some shape m] r0
          have r: "r = fst (DoneFile_add (note_hash ?n) w4)" and n: "note' = ?n"
            and w': "w' = snd (DoneFile_add (note_hash ?n) w4)"
            by auto
          show thesis
          proof (rule added [of root blocks "?head @ pre"])
            show "nb = Some root" by (rule Some)
            show "r = fst (DoneFile_add (note_hash note)
              (w\<lparr>trace := trace w @ (?head @ pre) @ [UploadCall root note' blocks None]\<rparr>))"
              unfolding r w4 n None by simp
            show "\<not> DoneFile_contains (done_hashes w) (note_hash note)" by (rule notdone)
            show "note' = ?n" by (rule n)
            show "parse_note env note' (rules w) = Inr blocks" using Inr n by simp
            show "blocks \<noteq> []" by (rule nonempty)
            show "w' = snd (DoneFile_add (note_hash note)
              (w\<lparr>trace := trace w @ (?head @ pre) @ [UploadCall root note' blocks None]\<rparr>))"
              unfolding w' w4 n None by simp
            show "\<forall>e\<in>set (?head @ pre). \<not> is_LedgerAdd e" using pre by auto
            show "\<forall>e\<in>set (?head @ pre). is_UploadCall e \<longrightarrow> (\<exists>c b y. e = UploadCall c note' b y)"
              using pre n by auto
          qed
        next
          case (Some e)
          with assms [unfolded \<open>nb = Some root\<close> shape m] r0
          have r: "r = Inl e" and n: "note' = ?n" and w': "w' = w4"
            by auto
          show thesis
          proof (rule untouched [of "?head @ pre @ [UploadCall root ?n blocks x]"])
            show "w' = w\<lparr>trace := trace w @ ?head @ pre @ [UploadCall root ?n blocks x]\<rparr>"
              unfolding w' w4 by simp
            show "\<forall>e\<in>set (?head @ pre @ [UploadCall root ?n blocks x]). \<not> is_LedgerAdd e"
              using pre by auto
            show "\<forall>e\<in>set (?head @ pre @ [UploadCall root ?n blocks x]). is_UploadCall e \<longrightarrow>
               nb \<noteq> None \<and> \<not> DoneFile_contains (done_hashes w) (note_hash note) \<and>
               (\<exists>c b y. e = UploadCall c note' b y)"
              using pre n notdone \<open>nb = Some root\<close> by auto
            show "note_hash note' = note_hash note" using n by simp
          qed
        qed
      qed
    qed
  qed
qed

section \<open>The worker\<close>

lemma upload_note_frame:
  assumes "EnexUploader_upload_note env nb note idx w = (r, note', w')"
  shows "heap w' = heap w" "semaphore w' = semaphore w" "parallelism w' = parallelism w"
    "rules w' = rules w" "import_root w' = import_root w" "mode w' = mode w"
    "notebook_notes_count w' = notebook_notes_count w"
  using assms by (cases rule: upload_note_effect; simp)+

lemma semaphore_release_one:
  "semaphore_release (Suc 0) w =
     (if semaphore w < parallelism w then Inr (w\<lparr>semaphore := Suc (semaphore w)\<rparr>)
      else Inl (ValueError ''Semaphore released too many times''))"
  by (simp add: semaphore_release_def)

text \<open>
  \<^verbatim>\<open>upload_note_with_release\<close> in terms of the pipeline: the pipeline runs on a copy of
  the note in a new cell at the end of the heap, and the worker leaves the copy there
  as the pipeline made it. No other cell changes.
\<close>

lemma with_release_effect:
  assumes "EnexUploader_upload_note_with_release env nb a idx w = (r, w')"
  obtains r0 note' u where
    "EnexUploader_upload_note env nb (heap w ! a) idx (w\<lparr>heap := heap w @ [heap w ! a]\<rparr>)
       = (r0, note', u)"
    "semaphore w < parallelism w \<longrightarrow>
       r = r0 \<and> w' = u\<lparr>heap := heap w @ [note'], semaphore := Suc (semaphore w)\<rparr>"
    "\<not> semaphore w < parallelism w \<longrightarrow>
       r = Inl (ValueError ''Semaphore released too many times'') \<and>
       w' = u\<lparr>heap := heap w @ [note']\<rparr>"
proof -
  obtain r0 note' u where
    run: "EnexUploader_upload_note env nb (heap w ! a) idx (w\<lparr>heap := heap w @ [heap w ! a]\<rparr>)
       = (r0, note', u)"
    by (cases "EnexUploader_upload_note env nb (heap w ! a) idx (w\<lparr>heap := heap w @ [heap w ! a]\<rparr>)")
      auto
  note fr = upload_note_frame [OF run]
  have a: "semaphore w < parallelism w \<longrightarrow>
       r = r0 \<and> w' = u\<lparr>heap := heap w @ [note'], semaphore := Suc (semaphore w)\<rparr>"
    using assms run fr
    by (auto simp: EnexUploader_upload_note_with_release_def Let_def semaphore_release_one)
  have b: "\<not> semaphore w < parallelism w \<longrightarrow>
       r = Inl (ValueError ''Semaphore released too many times'') \<and>
       w' = u\<lparr>heap := heap w @ [note']\<rparr>"
    using assms run fr
    by (auto simp: EnexUploader_upload_note_with_release_def Let_def semaphore_release_one)
  from run a b show thesis by (rule that)
qed

lemma upload_note_exhausted:
  assumes "\<not> DoneFile_contains (done_hashes w) (note_hash note)"
    and "parse_note env (apply_tag_rule (rules w) note) (rules w) = Inr blocks"
    and "blocks \<noteq> []"
    and "\<forall>i<5. \<exists>m. upload_note env (upload_count w + i) root (apply_tag_rule (rules w) note) blocks
            = Some (NoteUploadFailException m)"
  shows "\<exists>m ev. EnexUploader_upload_note env (Some root) note idx w =
    (Inl (NoteUploadFailException m), apply_tag_rule (rules w) note, w\<lparr>trace := trace w @ ev\<rparr>)"
proof -
  let ?n = "apply_tag_rule (rules w) note"
  let ?w3 = "w\<lparr>trace := trace w @
           [Log DEBUG (msg_parsing ?n), ParseCall ?n,
            Log INFO (msg_uploading idx (notebook_notes_count w) ?n)]\<rparr>"
  have cnt: "upload_count ?w3 = upload_count w"
    by (simp add: upload_count_def)
  have f5: "\<forall>i<5. \<exists>m. upload_note env (upload_count ?w3 + i) root ?n blocks
            = Some (NoteUploadFailException m)"
    using assms(4) unfolding cnt .
  obtain m where m: "upload_note env (upload_count ?w3 + 4) root ?n blocks
      = Some (NoteUploadFailException m)"
    using f5 by force
  have "EnexUploader_upload_note env (Some root) note idx w =
    (Inl (NoteUploadFailException m), ?n,
     w\<lparr>trace := trace w @
       ([Log DEBUG (msg_parsing ?n), ParseCall ?n,
         Log INFO (msg_uploading idx (notebook_notes_count w) ?n)] @
        concat (map (\<lambda>i.
          [UploadCall root ?n blocks (upload_note env (upload_count ?w3 + i) root ?n blocks),
           Log WARNING (msg_retrying ?n)]) [0..<4]) @
        [UploadCall root ?n blocks (Some (NoteUploadFailException m))])\<rparr>)"
    unfolding upload_note_reaches_upload [OF assms(1-3)] module_upload_note_exhausted [OF f5] m
    by simp
  then show ?thesis by blast
qed

lemma worker_exhausted:
  assumes "semaphore w < parallelism w"
    and "\<not> DoneFile_contains (done_hashes w) (note_hash (heap w ! a))"
    and "parse_note env (apply_tag_rule (rules w) (heap w ! a)) (rules w) = Inr blocks"
    and "blocks \<noteq> []"
    and "\<forall>i<5. \<exists>m. upload_note env (upload_count w + i) root
            (apply_tag_rule (rules w) (heap w ! a)) blocks = Some (NoteUploadFailException m)"
    and run: "EnexUploader_upload_note_with_release env (Some root) a idx w = (r, w')"
  shows "(\<exists>m. r = Inl (NoteUploadFailException m)) \<and> semaphore w' = Suc (semaphore w) \<and>
    parallelism w' = parallelism w \<and> done_hashes w' = done_hashes w \<and> fs w' = fs w"
proof -
  let ?w1 = "w\<lparr>heap := heap w @ [heap w ! a]\<rparr>"
  have h1: "\<not> DoneFile_contains (done_hashes ?w1) (note_hash (heap w ! a))"
    using assms(2) by simp
  have h2: "parse_note env (apply_tag_rule (rules ?w1) (heap w ! a)) (rules ?w1) = Inr blocks"
    using assms(3) by simp
  have h4: "\<forall>i<5. \<exists>m. upload_note env (upload_count ?w1 + i) root
            (apply_tag_rule (rules ?w1) (heap w ! a)) blocks = Some (NoteUploadFailException m)"
    using assms(5) by (simp add: upload_count_def)
  from upload_note_exhausted [OF h1 h2 assms(4) h4, of idx] obtain m ev where
    ex: "EnexUploader_upload_note env (Some root) (heap w ! a) idx ?w1 =
      (Inl (NoteUploadFailException m), apply_tag_rule (rules ?w1) (heap w ! a),
       ?w1\<lparr>trace := trace ?w1 @ ev\<rparr>)"
    by blast
  from with_release_effect [OF run] obtain r0 note' u where
    u: "EnexUploader_upload_note env (Some root) (heap w ! a) idx ?w1 = (r0, note', u)"
    and w': "semaphore w < parallelism w \<longrightarrow>
       r = r0 \<and> w' = u\<lparr>heap := heap w @ [note'], semaphore := Suc (semaphore w)\<rparr>"
    by blast
  from u ex w' assms(1) show ?thesis by auto
qed

text \<open>
  Claim C5, as the code has it. When the note of a running worker exhausts the five
  upload attempts, the \<^verbatim>\<open>NoteUploadFailException\<close> does leave
  \<^verbatim>\<open>upload_note_with_release\<close>: it ends the worker thread as an exception that nothing
  catches (\<open>uncaught\<close>), and there is no other channel for it. The \<^verbatim>\<open>finally\<close> clause
  has released the slot of the worker before. The step changes nothing else: the
  coordinator stands where it stood, the other workers are as they were, and the ledger
  and the file system are unchanged.
\<close>

theorem exhausted_upload_escapes_worker:
  assumes "i < length (threads s)"
    and "threads s ! i = (a, idx)"
    and "notebook_root s = Some root"
    and "semaphore (shared s) < parallelism (shared s)"
    and "\<not> DoneFile_contains (done_hashes (shared s)) (note_hash (heap (shared s) ! a))"
    and "parse_note env (apply_tag_rule (rules (shared s)) (heap (shared s) ! a)) (rules (shared s))
           = Inr blocks"
    and "blocks \<noteq> []"
    and "\<forall>k<5. \<exists>m. upload_note env (upload_count (shared s) + k) root
            (apply_tag_rule (rules (shared s)) (heap (shared s) ! a)) blocks
              = Some (NoteUploadFailException m)"
  shows "\<exists>m s'. upload_notebook_step env (Run i) s = Some s' \<and>
    fst (EnexUploader_upload_note_with_release env (Some root) a idx (shared s))
      = Inl (NoteUploadFailException m) \<and>
    uncaught s' = uncaught s @ [NoteUploadFailException m] \<and>
    coord s' = coord s \<and>
    threads s' = take i (threads s) @ drop (Suc i) (threads s) \<and>
    semaphore (shared s') = semaphore (shared s) + 1 \<and>
    done_hashes (shared s') = done_hashes (shared s) \<and>
    fs (shared s') = fs (shared s)"
proof -
  obtain r w' where
    run: "EnexUploader_upload_note_with_release env (Some root) a idx (shared s) = (r, w')"
    by (cases "EnexUploader_upload_note_with_release env (Some root) a idx (shared s)") auto
  from worker_exhausted [OF assms(4-8) run] obtain m where
    r: "r = Inl (NoteUploadFailException m)" and sem: "semaphore w' = Suc (semaphore (shared s))"
    and rest: "done_hashes w' = done_hashes (shared s)" "fs w' = fs (shared s)"
    by blast
  show ?thesis
    using assms(1-3) run r sem rest by simp
qed

theorem exhausted_upload_escapes_worker_witness:
  "\<exists>m s'. upload_notebook_step (env_script (fail_first 5)) (Run 0) sys_one_worker = Some s' \<and>
    fst (EnexUploader_upload_note_with_release (env_script (fail_first 5)) (Some ''nb'') 0 1 w_start)
      = Inl (NoteUploadFailException m) \<and>
    uncaught s' = [NoteUploadFailException m] \<and>
    coord s' = Submitting [note_b, note_c] 2 \<and>
    threads s' = [] \<and>
    semaphore (shared s') = 2 \<and>
    done_hashes (shared s') = DoneFile ''done.txt'' {} \<and>
    fs (shared s') = Map.empty"
proof -
  have h1: "0 < length (threads sys_one_worker)" by (simp add: sys_one_worker_def)
  have h2: "threads sys_one_worker ! 0 = (0, 1)" by (simp add: sys_one_worker_def)
  have h3: "notebook_root sys_one_worker = Some ''nb''" by (simp add: sys_one_worker_def)
  have sh: "shared sys_one_worker = w_start" by (simp add: sys_one_worker_def)
  have h4: "semaphore (shared sys_one_worker) < parallelism (shared sys_one_worker)"
    by (simp add: sh w_start_def)
  have h5: "\<not> DoneFile_contains (done_hashes (shared sys_one_worker))
      (note_hash (heap (shared sys_one_worker) ! 0))"
    by (simp add: sh w_start_def DoneFile_contains_def)
  have h6: "parse_note (env_script (fail_first 5))
      (apply_tag_rule (rules (shared sys_one_worker)) (heap (shared sys_one_worker) ! 0))
      (rules (shared sys_one_worker)) = Inr [''block'']"
    by (simp add: env_script_def)
  have h7: "[''block''] \<noteq> ([] :: block list)" by simp
  have h8: "\<forall>k<5. \<exists>m. upload_note (env_script (fail_first 5)) (upload_count (shared sys_one_worker) + k)
      ''nb'' (apply_tag_rule (rules (shared sys_one_worker)) (heap (shared sys_one_worker) ! 0))
      [''block''] = Some (NoteUploadFailException m)"
    by (simp add: env_script_def fail_first_def sh upload_count_def w_start_def)
  from exhausted_upload_escapes_worker [OF h1 h2 h3 h4 h5 h6 h7 h8]
  obtain m s' where
    "upload_notebook_step (env_script (fail_first 5)) (Run 0) sys_one_worker = Some s'"
    "fst (EnexUploader_upload_note_with_release (env_script (fail_first 5)) (Some ''nb'') 0 1
       (shared sys_one_worker)) = Inl (NoteUploadFailException m)"
    "uncaught s' = uncaught sys_one_worker @ [NoteUploadFailException m]"
    "coord s' = coord sys_one_worker"
    "threads s' = take 0 (threads sys_one_worker) @ drop (Suc 0) (threads sys_one_worker)"
    "semaphore (shared s') = semaphore (shared sys_one_worker) + 1"
    "done_hashes (shared s') = done_hashes (shared sys_one_worker)"
    "fs (shared s') = fs (shared sys_one_worker)"
    by blast
  then show ?thesis
    by (intro exI [of _ m] exI [of _ s']) (simp add: sys_one_worker_def w_start_def)
qed

text \<open>
  Counterexample to claim C5 as stated: with an upload that always fails, the worker on
  \<open>note_a\<close> does not return a result. \<^verbatim>\<open>upload_note_with_release\<close> ends with the
  \<^verbatim>\<open>NoteUploadFailException\<close>, and the thread ends with it uncaught.
\<close>

theorem exhausted_upload_result_channel_counterexample:
  "fst (EnexUploader_upload_note_with_release (env_script (fail_first 5)) (Some ''nb'') 0 1 w_start)
     = Inl (NoteUploadFailException ''503'')
   \<and> map_option uncaught (upload_notebook_step (env_script (fail_first 5)) (Run 0) sys_one_worker)
     = Some [NoteUploadFailException ''503'']"
  by code_simp

lemma upload_note_returns_note:
  assumes "EnexUploader_upload_note env nb note idx w = (r, note', w')"
  shows "note' = (if DoneFile_contains (done_hashes w) (note_hash note) then note
                  else apply_tag_rule (rules w) note)"
  using assms
  by (auto simp: EnexUploader_upload_note_def Let_def
      split: if_splits prod.splits sum.splits option.splits)

lemma upload_note_new_uploads:
  assumes "EnexUploader_upload_note env nb note idx w = (r, note', w')"
  shows "\<exists>ev. trace w' = trace w @ ev \<and>
    (\<forall>e\<in>set ev. is_UploadCall e \<longrightarrow> (\<exists>c b y. e = UploadCall c note' b y))"
  using assms
proof (cases rule: upload_note_effect)
  case (untouched ev)
  then show ?thesis by auto
next
  case (added root blocks pre)
  then show ?thesis
    by (intro exI [of _ "pre @ [UploadCall root note' blocks None, LedgerAdd (note_hash note)]"])
      auto
qed

text \<open>
  Claim C7. A worker runs with the forced tag \<open>T\<close> (a tag that is not empty) on a note
  that is not in the ledger and that has \<open>T\<close> at most once among its tags. Then the
  copy that the worker made, the last cell of the heap, has the tags of the note
  unchanged when \<open>T\<close> was among them and with \<open>T\<close> appended otherwise; either way it
  has \<open>T\<close> exactly once. Every upload call of the worker is made with this copy. All
  the cells that were there before, the note of the caller among them, are unchanged.
\<close>

theorem tag_injection:
  assumes "tag (rules w) = Some T"
    and "T \<noteq> []"
    and "a < length (heap w)"
    and "\<not> DoneFile_contains (done_hashes w) (note_hash (heap w ! a))"
    and "count_list (tags (heap w ! a)) T \<le> 1"
    and "EnexUploader_upload_note_with_release env nb a idx w = (r, w')"
  shows "\<exists>copy. heap w' = heap w @ [copy] \<and>
    tags copy = (if T \<in> set (tags (heap w ! a)) then tags (heap w ! a)
                 else tags (heap w ! a) @ [T]) \<and>
    count_list (tags copy) T = 1 \<and>
    heap w' ! a = heap w ! a \<and>
    (\<forall>c n b x. UploadCall c n b x \<in> set (drop (length (trace w)) (trace w')) \<longrightarrow> n = copy)"
proof -
  let ?note = "heap w ! a"
  let ?w1 = "w\<lparr>heap := heap w @ [?note]\<rparr>"
  from with_release_effect [OF assms(6)] obtain r0 note' u where
    u: "EnexUploader_upload_note env nb ?note idx ?w1 = (r0, note', u)"
    and ok: "semaphore w < parallelism w \<longrightarrow>
       r = r0 \<and> w' = u\<lparr>heap := heap w @ [note'], semaphore := Suc (semaphore w)\<rparr>"
    and full: "\<not> semaphore w < parallelism w \<longrightarrow>
       r = Inl (ValueError ''Semaphore released too many times'') \<and>
       w' = u\<lparr>heap := heap w @ [note']\<rparr>"
    by blast
  have hp: "heap w' = heap w @ [note']" and tr: "trace w' = trace u"
    using ok full by (cases "semaphore w < parallelism w"; simp)+
  have n: "note' = apply_tag_rule (rules w) ?note"
    using upload_note_returns_note [OF u] assms(4) by simp
  have tags: "tags note' = (if T \<in> set (tags ?note) then tags ?note else tags ?note @ [T])"
    unfolding n using assms(1,2) by (simp add: apply_tag_rule_def)
  have once: "count_list (tags note') T = 1"
  proof (cases "T \<in> set (tags ?note)")
    case True
    then have "count_list (tags ?note) T \<noteq> 0" by (simp add: count_list_0_iff)
    with assms(5) True tags show ?thesis by simp
  next
    case False
    then have "count_list (tags ?note) T = 0" by (simp add: count_list_0_iff)
    with False tags show ?thesis by simp
  qed
  from upload_note_new_uploads [OF u] obtain ev where
    ev: "trace u = trace w @ ev"
    "\<forall>e\<in>set ev. is_UploadCall e \<longrightarrow> (\<exists>c b y. e = UploadCall c note' b y)"
    by auto
  have calls: "\<forall>c n b x. UploadCall c n b x \<in> set (drop (length (trace w)) (trace w')) \<longrightarrow> n = note'"
    unfolding tr ev(1) using ev(2) by fastforce
  have same: "heap w' ! a = heap w ! a"
    unfolding hp using assms(3) by (simp add: nth_append)
  from hp tags once same calls show ?thesis by blast
qed

theorem tag_injection_witness:
  "\<exists>copy. heap (snd (EnexUploader_upload_note_with_release (env_script (fail_first 0))
        (Some ''nb'') 0 1 w_start)) = [note_a, copy] \<and>
     tags copy = [''x'', ''evernote''] \<and>
     count_list (tags copy) ''evernote'' = 1"
proof -
  let ?X = "EnexUploader_upload_note_with_release (env_script (fail_first 0)) (Some ''nb'') 0 1 w_start"
  have h1: "tag (rules w_start) = Some ''evernote''" by (simp add: w_start_def)
  have h2: "''evernote'' \<noteq> []" by simp
  have h3: "0 < length (heap w_start)" by (simp add: w_start_def)
  have h4: "\<not> DoneFile_contains (done_hashes w_start) (note_hash (heap w_start ! 0))"
    by (simp add: w_start_def DoneFile_contains_def)
  have h5: "count_list (tags (heap w_start ! 0)) ''evernote'' \<le> 1"
    by (simp add: w_start_def note_a_def)
  have h6: "?X = (fst ?X, snd ?X)" by simp
  from tag_injection [OF h1 h2 h3 h4 h5 h6] obtain copy where
    c: "heap (snd ?X) = heap w_start @ [copy]"
    "tags copy = (if ''evernote'' \<in> set (tags (heap w_start ! 0)) then tags (heap w_start ! 0)
                 else tags (heap w_start ! 0) @ [''evernote''])"
    "count_list (tags copy) ''evernote'' = 1"
    by blast
  then show ?thesis
    by (intro exI [of _ copy]) (simp add: w_start_def note_a_def)
qed

section \<open>The ledger and its file\<close>

lemma isspace_newline [simp]: "isspace (CHR 0x0A)"
  by (simp add: isspace_def)

lemma strip_append_newline: "strip (t @ [CHR 0x0A]) = strip t"
proof (cases "\<forall>c\<in>set t. isspace c")
  case True
  then have e: "dropWhile isspace t = []" by (induction t) auto
  have e2: "dropWhile isspace (t @ [CHR 0x0A]) = []"
    using True by (simp add: dropWhile_append)
  show ?thesis unfolding strip_def e e2 by simp
next
  case False
  then have "dropWhile isspace (t @ [CHR 0x0A]) = dropWhile isspace t @ [CHR 0x0A]"
    by (simp add: dropWhile_append)
  then show ?thesis by (simp add: strip_def)
qed

lemma lines_from_plain:
  "CHR 0x0A \<notin> set xs \<Longrightarrow> CHR 0x0D \<notin> set xs \<Longrightarrow>
   lines_from cur (xs @ CHR 0x0A # rest) = (cur @ xs @ [CHR 0x0A]) # lines_from [] rest"
  by (induction xs arbitrary: cur) auto

lemma lines_from_nl:
  "lines_from cur (CHR 0x0A # cs) = (cur @ [CHR 0x0A]) # lines_from [] cs"
  by simp

lemma lines_from_cr_end: "lines_from cur [CHR 0x0D] = [cur @ [CHR 0x0A]]"
  by simp

lemma lines_from_cr_nl:
  "lines_from cur (CHR 0x0D # CHR 0x0A # ds) = (cur @ [CHR 0x0A]) # lines_from [] ds"
  by simp

lemma lines_from_cr_other:
  "d \<noteq> CHR 0x0A \<Longrightarrow>
   lines_from cur (CHR 0x0D # d # ds) = (cur @ [CHR 0x0A]) # lines_from [] (d # ds)"
  by simp

lemma lines_from_other:
  "c \<noteq> CHR 0x0A \<Longrightarrow> c \<noteq> CHR 0x0D \<Longrightarrow> lines_from cur (c # cs) = lines_from (cur @ [c]) cs"
  by simp

lemma lines_from_after_newline:
  "lines_from cur (ys @ CHR 0x0A # rest) = lines_from cur (ys @ [CHR 0x0A]) @ lines_from [] rest"
proof (induction ys arbitrary: cur rule: length_induct)
  case (1 ys)
  have ih: "lines_from cur' (zs @ CHR 0x0A # rest)
      = lines_from cur' (zs @ [CHR 0x0A]) @ lines_from [] rest"
    if "length zs < length ys" for zs cur'
    using 1 that by blast
  show ?case
  proof (cases ys)
    case Nil
    then show ?thesis by simp
  next
    case ys: (Cons c cs)
    have lcs: "length cs < length ys" using ys by simp
    consider (nl) "c = CHR 0x0A" | (cr) "c = CHR 0x0D" | (other) "c \<noteq> CHR 0x0A" "c \<noteq> CHR 0x0D"
      by blast
    then show ?thesis
    proof cases
      case nl
      show ?thesis
        unfolding ys nl append_Cons lines_from_nl ih [OF lcs] by simp
    next
      case other
      show ?thesis
        unfolding ys append_Cons lines_from_other [OF other] ih [OF lcs] by simp
    next
      case cr
      show ?thesis
      proof (cases cs)
        case Nil
        show ?thesis
          unfolding ys cr Nil by simp
      next
        case cs: (Cons d ds)
        have lds: "length ds < length ys" using ys cs by simp
        show ?thesis
        proof (cases "d = CHR 0x0A")
          case True
          show ?thesis
            unfolding ys cr cs True append_Cons lines_from_cr_nl ih [OF lds] by simp
        next
          case False
          have "lines_from [] ((d # ds) @ CHR 0x0A # rest)
            = lines_from [] ((d # ds) @ [CHR 0x0A]) @ lines_from [] rest"
            using ih [OF lcs] cs by simp
          then show ?thesis
            unfolding ys cr cs append_Cons lines_from_cr_other [OF False] by simp
        qed
      qed
    qed
  qed
qed

lemma readlines_append_line:
  assumes "newline_ended text" and "CHR 0x0A \<notin> set t" and "CHR 0x0D \<notin> set t"
  shows "readlines (text @ t @ [CHR 0x0A]) = readlines text @ [t @ [CHR 0x0A]]"
proof (cases "text = []")
  case True
  with lines_from_plain [OF assms(2,3), of "[]" "[]"] show ?thesis
    by (simp add: readlines_def)
next
  case False
  with assms(1) obtain ys where ys: "text = ys @ [CHR 0x0A]"
    unfolding newline_ended_def by (metis append_butlast_last_id)
  have "lines_from [] (ys @ CHR 0x0A # t @ [CHR 0x0A])
     = lines_from [] (ys @ [CHR 0x0A]) @ lines_from [] (t @ [CHR 0x0A])"
    by (rule lines_from_after_newline)
  with lines_from_plain [OF assms(2,3), of "[]" "[]"] show ?thesis
    by (simp add: readlines_def ys)
qed

lemma file_tokens_append:
  assumes "clean_token t" and "newline_ended (file_text p files)"
  shows "file_tokens p (append_file p (t @ [CHR 0x0A]) files) = file_tokens p files @ [t]"
proof -
  have t: "CHR 0x0A \<notin> set t" "CHR 0x0D \<notin> set t" "strip t = t"
    using assms(1) by (simp_all add: clean_token_def)
  have "file_text p (append_file p (t @ [CHR 0x0A]) files) = file_text p files @ t @ [CHR 0x0A]"
    by (simp add: file_text_def append_file_def split: option.splits)
  then show ?thesis
    using readlines_append_line [OF assms(2) t(1,2)]
    by (simp add: file_tokens_def strip_append_newline t(3))
qed

lemma append_file_newline_ended:
  "newline_ended (file_text p (append_file p (t @ [CHR 0x0A]) files))"
  by (simp add: newline_ended_def file_text_def append_file_def split: option.splits)

lemma append_file_other [simp]:
  "q \<noteq> p \<Longrightarrow> file_text q (append_file p text files) = file_text q files"
  by (simp add: file_text_def append_file_def)

lemma DoneFile_init_tokens:
  "DoneFile_init p files = DoneFile p (set (file_tokens p files))"
  by (simp add: DoneFile_init_def file_tokens_def file_text_def readlines_def split: option.splits)

lemma DoneFile_add_returns:
  assumes "done_hashes w = DoneFile p s"
  shows "(fst (DoneFile_add t w) = Inr ()) = (append_error w p = None)"
  using assms by (simp add: DoneFile_add_def Let_def split: option.splits)

lemma DoneFile_add_file:
  assumes "done_hashes w = DoneFile p s" and "fst (DoneFile_add t w) = Inr ()"
  shows "done_hashes (snd (DoneFile_add t w)) = DoneFile p (insert t s)"
    "fs (snd (DoneFile_add t w)) = append_file p (t @ [CHR 0x0A]) (fs w)"
  using assms by (simp_all add: DoneFile_add_def Let_def split: option.splits)

lemma DoneFile_add_all_returns:
  assumes "done_hashes w = DoneFile p s" and "append_error w p = None"
  shows "fst (DoneFile_add_all ts w) = Inr ()"
  using assms
proof (induction ts arbitrary: w s)
  case Nil
  then show ?case by simp
next
  case (Cons t ts)
  let ?w = "snd (DoneFile_add t w)"
  have r: "fst (DoneFile_add t w) = Inr ()"
    using DoneFile_add_returns [OF Cons.prems(1), of t] Cons.prems(2) by simp
  have a: "done_hashes ?w = DoneFile p (insert t s)"
    by (rule DoneFile_add_file(1) [OF Cons.prems(1) r])
  have b: "append_error ?w p = None" using Cons.prems(2) by simp
  have "DoneFile_add_all (t # ts) w = DoneFile_add_all ts ?w"
    using r by (cases "DoneFile_add t w") auto
  with Cons.IH [OF a b] show ?case by simp
qed

lemma DoneFile_add_all_file:
  assumes "done_hashes w = DoneFile p s"
    and "\<forall>u\<in>set ts. clean_token u"
    and "newline_ended (file_text p (fs w))"
    and "fst (DoneFile_add_all ts w) = Inr ()"
  shows "done_hashes (snd (DoneFile_add_all ts w)) = DoneFile p (s \<union> set ts) \<and>
    file_tokens p (fs (snd (DoneFile_add_all ts w))) = file_tokens p (fs w) @ ts"
  using assms
proof (induction ts arbitrary: w s)
  case Nil
  then show ?case by simp
next
  case (Cons t ts)
  let ?w = "snd (DoneFile_add t w)"
  have r: "fst (DoneFile_add t w) = Inr ()"
    using Cons.prems(4) by (cases "DoneFile_add t w") (auto split: sum.splits)
  then have all: "DoneFile_add_all (t # ts) w = DoneFile_add_all ts ?w"
    by (cases "DoneFile_add t w") auto
  note w = DoneFile_add_file [OF Cons.prems(1) r]
  have b: "\<forall>u\<in>set ts. clean_token u" using Cons.prems(2) by simp
  have c: "newline_ended (file_text p (fs ?w))"
    unfolding w by (simp add: append_file_newline_ended)
  have d: "file_tokens p (fs ?w) = file_tokens p (fs w) @ [t]"
    unfolding w using file_tokens_append [of t p "fs w"] Cons.prems(2,3) by simp
  have e: "fst (DoneFile_add_all ts ?w) = Inr ()" using Cons.prems(4) unfolding all .
  from Cons.IH [OF w(1) b c e] show ?case unfolding all by (simp add: d)
qed

text \<open>
  Claim C3, as the code has it. For a ledger on a file, when \<^verbatim>\<open>add(t)\<close> has returned,
  \<open>t\<close> is in the in-memory set and \<open>t\<close> and a newline have been appended to the file,
  for every token; and \<^verbatim>\<open>add\<close> does return unless the file cannot be opened for
  appending. When \<open>t\<close> is a clean token (no white space at its ends, no line break
  inside) and the file before was absent, empty or ended by a newline, a ledger
  constructed from the file holds \<open>t\<close> and all that a ledger constructed before held.
  Starting with no file, after any sequence of additions of clean tokens the constructed
  ledger is the set of the tokens added: repeated lines count once. Constructing from a
  path with no file gives the empty ledger.
\<close>

theorem ledger_round_trip:
  assumes "done_hashes w = DoneFile p s"
  shows "(fst (DoneFile_add t w) = Inr () \<longrightarrow>
       done_hashes (snd (DoneFile_add t w)) = DoneFile p (insert t s) \<and>
       fs (snd (DoneFile_add t w)) p = Some (file_text p (fs w) @ t @ [CHR 0x0A]) \<and>
       (clean_token t \<and> newline_ended (file_text p (fs w)) \<longrightarrow>
          hashes_of (DoneFile_init p (fs (snd (DoneFile_add t w))))
            = insert t (hashes_of (DoneFile_init p (fs w))))) \<and>
    ((fst (DoneFile_add t w) = Inr ()) = (append_error w p = None)) \<and>
    (fs w p = None \<and> (\<forall>u\<in>set ts. clean_token u) \<and> fst (DoneFile_add_all ts w) = Inr () \<longrightarrow>
       DoneFile_init p (fs (snd (DoneFile_add_all ts w))) = DoneFile p (set ts)) \<and>
    (append_error w p = None \<longrightarrow> fst (DoneFile_add_all ts w) = Inr ()) \<and>
    (files p = None \<longrightarrow> DoneFile_init p files = DoneFile p {})"
proof (intro conjI impI)
  show "(fst (DoneFile_add t w) = Inr ()) = (append_error w p = None)"
    by (rule DoneFile_add_returns [OF assms])
  show "fst (DoneFile_add_all ts w) = Inr ()" if "append_error w p = None"
    by (rule DoneFile_add_all_returns [OF assms that])
  show "DoneFile_init p (fs (snd (DoneFile_add_all ts w))) = DoneFile p (set ts)"
    if h: "fs w p = None \<and> (\<forall>u\<in>set ts. clean_token u) \<and> fst (DoneFile_add_all ts w) = Inr ()"
  proof -
    have e: "file_text p (fs w) = []" using h by (simp add: file_text_def)
    then have n: "newline_ended (file_text p (fs w))" by (simp add: newline_ended_def)
    have c: "\<forall>u\<in>set ts. clean_token u" and r: "fst (DoneFile_add_all ts w) = Inr ()"
      using h by simp_all
    from DoneFile_add_all_file [OF assms c n r] h e show ?thesis
      by (simp add: DoneFile_init_tokens file_tokens_def readlines_def)
  qed
  show "DoneFile_init p files = DoneFile p {}" if "files p = None"
    using that by (simp add: DoneFile_init_def)
next
  assume r: "fst (DoneFile_add t w) = Inr ()"
  note w = DoneFile_add_file [OF assms r]
  show "done_hashes (snd (DoneFile_add t w)) = DoneFile p (insert t s)"
    by (rule w(1))
  show "fs (snd (DoneFile_add t w)) p = Some (file_text p (fs w) @ t @ [CHR 0x0A])"
    unfolding w by (simp add: append_file_def file_text_def)
  show "hashes_of (DoneFile_init p (fs (snd (DoneFile_add t w))))
         = insert t (hashes_of (DoneFile_init p (fs w)))"
    if "clean_token t \<and> newline_ended (file_text p (fs w))"
    unfolding w DoneFile_init_tokens using file_tokens_append [of t p "fs w"] that by simp
qed

theorem ledger_round_trip_witness:
  "fst (DoneFile_add ''h1'' w_start) = Inr () \<and>
   done_hashes (snd (DoneFile_add ''h1'' w_start)) = DoneFile ''done.txt'' {''h1''} \<and>
   fs (snd (DoneFile_add ''h1'' w_start)) ''done.txt'' = Some (''h1'' @ [CHR 0x0A]) \<and>
   hashes_of (DoneFile_init ''done.txt'' (fs (snd (DoneFile_add ''h1'' w_start)))) = {''h1''} \<and>
   fst (DoneFile_add_all [''h1'', ''h2'', ''h1''] w_start) = Inr () \<and>
   DoneFile_init ''done.txt'' (fs (snd (DoneFile_add_all [''h1'', ''h2'', ''h1''] w_start)))
     = DoneFile ''done.txt'' {''h1'', ''h2''} \<and>
   DoneFile_init ''done.txt'' Map.empty = DoneFile ''done.txt'' {}"
proof -
  have h: "done_hashes w_start = DoneFile ''done.txt'' {}" by (simp add: w_start_def)
  have c: "clean_token ''h1''" "clean_token ''h2''" by code_simp+
  have f: "fs w_start ''done.txt'' = None" "file_text ''done.txt'' (fs w_start) = []"
    "hashes_of (DoneFile_init ''done.txt'' (fs w_start)) = {}"
    "append_error w_start ''done.txt'' = None"
    by (simp_all add: w_start_def file_text_def DoneFile_init_def)
  have n: "newline_ended []" by (simp add: newline_ended_def)
  have e: "(Map.empty :: Path \<rightharpoonup> string) ''done.txt'' = None" by simp
  from ledger_round_trip [OF h, of "''h1''" "[''h1'', ''h2'', ''h1'']" Map.empty]
  show ?thesis
    using c f n e by auto
qed

text \<open>
  Counterexample to claim C3 as stated, which speaks of every token: the token
  \<^verbatim>\<open>" a"\<close> with a space in front is added, \<^verbatim>\<open>add\<close> returns, and the ledger
  constructed from the file holds \<^verbatim>\<open>"a"\<close> and not the token.
\<close>

theorem ledger_round_trip_counterexample:
  "fst (DoneFile_add '' a'' w_start) = Inr () \<and>
   \<not> DoneFile_contains (DoneFile_init ''done.txt'' (fs (snd (DoneFile_add '' a'' w_start)))) '' a'' \<and>
   DoneFile_init ''done.txt'' (fs (snd (DoneFile_add '' a'' w_start))) = DoneFile ''done.txt'' {''a''}"
  by code_simp

section \<open>The slots of the semaphore\<close>

lemma with_release_slot:
  assumes "semaphore w < parallelism w"
    and "EnexUploader_upload_note_with_release env nb a idx w = (r, w')"
  shows "semaphore w' = Suc (semaphore w)" "parallelism w' = parallelism w"
proof -
  from with_release_effect [OF assms(2)] obtain r0 note' u where
    u: "EnexUploader_upload_note env nb (heap w ! a) idx (w\<lparr>heap := heap w @ [heap w ! a]\<rparr>)
       = (r0, note', u)"
    and ok: "semaphore w < parallelism w \<longrightarrow>
       r = r0 \<and> w' = u\<lparr>heap := heap w @ [note'], semaphore := Suc (semaphore w)\<rparr>"
    by blast
  from ok assms(1)
  have w': "w' = u\<lparr>heap := heap w @ [note'], semaphore := Suc (semaphore w)\<rparr>"
    by simp
  show "semaphore w' = Suc (semaphore w)" unfolding w' by simp
  show "parallelism w' = parallelism w"
    unfolding w' using upload_note_frame(3) [OF u] by simp
qed

lemma length_remove_nth:
  "i < length xs \<Longrightarrow> Suc (length (take i xs @ drop (Suc i) xs)) = length xs"
  by simp

lemma slots_inv_step:
  assumes "slots_inv P s" and "upload_notebook_step env act s = Some s'"
  shows "slots_inv P s'"
proof (cases act)
  case Submit
  with assms(2) obtain n rest idx where c: "coord s = Submitting (n # rest) idx"
    and free: "0 < semaphore (shared s)"
    by (auto split: coord_pc.splits list.splits if_splits)
  with assms(2) Submit have s': "s' = s\<lparr>shared := (shared s)\<lparr>heap := heap (shared s) @ [n],
        semaphore := semaphore (shared s) - 1\<rparr>,
      coord := Submitting rest (idx + 1),
      threads := threads s @ [(length (heap (shared s)), idx)]\<rparr>"
    by simp
  show ?thesis
    using assms(1) c free unfolding s' by (simp add: slots_inv_def)
next
  case EndLoop
  with assms(2) obtain idx where c: "coord s = Submitting [] idx"
    by (auto split: coord_pc.splits list.splits)
  with assms(2) EndLoop have s': "s' = s\<lparr>coord := Awaiting 0\<rparr>" by simp
  show ?thesis
    using assms(1) c unfolding s' by (simp add: slots_inv_def)
next
  case AwaitAcquire
  with assms(2) obtain k where c: "coord s = Awaiting k"
    and free: "k < parallelism (shared s)" "0 < semaphore (shared s)"
    by (auto split: coord_pc.splits if_splits)
  with assms(2) AwaitAcquire
  have s': "s' = s\<lparr>shared := (shared s)\<lparr>semaphore := semaphore (shared s) - 1\<rparr>,
      coord := Awaiting (k + 1)\<rparr>"
    by simp
  show ?thesis
    using assms(1) c free unfolding s' by (simp add: slots_inv_def)
next
  case AwaitRelease
  with assms(2) obtain k where c: "coord s = Awaiting k"
    and k: "\<not> k < parallelism (shared s)"
    by (auto split: coord_pc.splits if_splits)
  from assms(1) c k have sem: "parallelism (shared s) = P" "k = P" "semaphore (shared s) = 0"
    "threads s = []"
    by (auto simp: slots_inv_def)
  show ?thesis
  proof (cases "P = 0")
    case True
    with assms(2) AwaitRelease c sem
    have "s' = s\<lparr>coord := Raised (ValueError ''n must be one or more'')\<rparr>"
      by (simp add: semaphore_release_def)
    then show ?thesis using sem True by (simp add: slots_inv_def)
  next
    case False
    with assms(2) AwaitRelease c sem
    have "s' = s\<lparr>shared := (shared s)\<lparr>semaphore := P\<rparr>, coord := Returned\<rparr>"
      by (simp add: semaphore_release_def)
    then show ?thesis using sem by (simp add: slots_inv_def)
  qed
next
  case (Run i)
  with assms(2) have i: "i < length (threads s)"
    by (simp split: if_splits)
  obtain a idx where t: "threads s ! i = (a, idx)" by (cases "threads s ! i") auto
  obtain r w' where
    run: "EnexUploader_upload_note_with_release env (notebook_root s) a idx (shared s) = (r, w')"
    by (cases "EnexUploader_upload_note_with_release env (notebook_root s) a idx (shared s)") auto
  have s': "s' = s\<lparr>shared := w',
      threads := take i (threads s) @ drop (Suc i) (threads s),
      uncaught := uncaught s @ (case r of Inl e \<Rightarrow> [e] | Inr u \<Rightarrow> [])\<rparr>"
    using assms(2) Run i t run by simp
  have free: "semaphore (shared s) < parallelism (shared s)"
    using assms(1) i by (cases "coord s") (auto simp: slots_inv_def)
  note slot = with_release_slot [OF free run]
  have len: "Suc (length (take i (threads s) @ drop (Suc i) (threads s))) = length (threads s)"
    using i by (rule length_remove_nth)
  show ?thesis
    using assms(1) slot len unfolding s'
    by (cases "coord s") (simp_all add: slots_inv_def)
qed

lemma slots_inv_exec:
  assumes "slots_inv P s" and "upload_notebook_exec env acts s = Some s'"
  shows "slots_inv P s'"
  using assms
proof (induction acts arbitrary: s)
  case Nil
  then show ?case by simp
next
  case (Cons act acts)
  then obtain s1 where s1: "upload_notebook_step env act s = Some s1"
    and rest: "upload_notebook_exec env acts s1 = Some s'"
    by (auto split: option.splits)
  from Cons.IH [OF slots_inv_step [OF Cons.prems(1) s1] rest] show ?case .
qed

lemma slots_inv_start:
  assumes "semaphore w = parallelism w"
  shows "slots_inv (parallelism w) (upload_notebook_start env enex_file w)"
  using assms by (simp add: slots_inv_def upload_notebook_start_def Let_def log_record_def)

text \<open>
  Claim C9. \<^verbatim>\<open>upload_notebook\<close> is entered with all \<open>P\<close> slots free, as
  \<^verbatim>\<open>__init__\<close> and every earlier call that returned leave them. Then at every point
  of every schedule, for every list of notes, at most \<open>P\<close> workers are running. A
  worker that ends, with a result or with an exception, has released its slot: the step
  that ends it leaves one worker less and one slot more. When the coordinator has
  returned, no worker is running and all \<open>P\<close> slots are free again. The coordinator
  itself can only end by an exception when \<open>P\<close> is zero.
\<close>

theorem bounded_concurrency:
  assumes "semaphore w = parallelism w"
    and "upload_notebook env enex_file acts w = Some s"
  shows "length (threads s) \<le> parallelism w \<and>
    (\<forall>i s'. upload_notebook_step env (Run i) s = Some s' \<longrightarrow>
       semaphore (shared s') = semaphore (shared s) + 1 \<and>
       length (threads s') + 1 = length (threads s)) \<and>
    (coord s = Returned \<longrightarrow> threads s = [] \<and> semaphore (shared s) = parallelism w) \<and>
    (\<forall>e. coord s = Raised e \<longrightarrow> parallelism w = 0)"
proof -
  let ?P = "parallelism w"
  have inv: "slots_inv ?P s"
    using slots_inv_exec [OF slots_inv_start [OF assms(1)]] assms(2)
    unfolding upload_notebook_def by blast
  have bound: "length (threads s) \<le> ?P"
    using inv by (cases "coord s") (auto simp: slots_inv_def)
  have returned: "coord s = Returned \<longrightarrow> threads s = [] \<and> semaphore (shared s) = ?P"
    using inv by (auto simp: slots_inv_def)
  have raised: "\<forall>e. coord s = Raised e \<longrightarrow> ?P = 0"
    using inv by (auto simp: slots_inv_def)
  have release: "semaphore (shared s') = semaphore (shared s) + 1 \<and>
       length (threads s') + 1 = length (threads s)"
    if step: "upload_notebook_step env (Run i) s = Some s'" for i s'
  proof -
    from step have i: "i < length (threads s)" by (simp split: if_splits)
    obtain a idx where t: "threads s ! i = (a, idx)" by (cases "threads s ! i") auto
    obtain r w' where
      run: "EnexUploader_upload_note_with_release env (notebook_root s) a idx (shared s) = (r, w')"
      by (cases "EnexUploader_upload_note_with_release env (notebook_root s) a idx (shared s)") auto
    have s': "s' = s\<lparr>shared := w',
        threads := take i (threads s) @ drop (Suc i) (threads s),
        uncaught := uncaught s @ (case r of Inl e \<Rightarrow> [e] | Inr u \<Rightarrow> [])\<rparr>"
      using step i t run by simp
    have free: "semaphore (shared s) < parallelism (shared s)"
      using inv i by (cases "coord s") (auto simp: slots_inv_def)
    from with_release_slot(1) [OF free run] length_remove_nth [OF i] show ?thesis
      unfolding s' by simp
  qed
  from bound release returned raised show ?thesis by blast
qed

theorem bounded_concurrency_witness:
  "coord (the (upload_notebook (env_script (fail_first 5)) ''nb'' schedule_3 w_idle)) = Returned \<and>
   threads (the (upload_notebook (env_script (fail_first 5)) ''nb'' schedule_3 w_idle)) = [] \<and>
   semaphore (shared (the (upload_notebook (env_script (fail_first 5)) ''nb'' schedule_3 w_idle))) = 2 \<and>
   uncaught (the (upload_notebook (env_script (fail_first 5)) ''nb'' schedule_3 w_idle))
     = [NoteUploadFailException ''503''] \<and>
   length (threads (the (upload_notebook (env_script (fail_first 5)) ''nb'' [Submit, Submit] w_idle))) = 2 \<and>
   Option.is_none (upload_notebook (env_script (fail_first 5)) ''nb'' [Submit, Submit, Submit] w_idle)"
proof -
  let ?E = "env_script (fail_first 5)"
  let ?s = "the (upload_notebook ?E ''nb'' schedule_3 w_idle)"
  have h1: "semaphore w_idle = parallelism w_idle" by (simp add: w_idle_def w_start_def)
  have "\<not> Option.is_none (upload_notebook ?E ''nb'' schedule_3 w_idle)" by code_simp
  then have h2: "upload_notebook ?E ''nb'' schedule_3 w_idle = Some ?s"
    by (simp add: Option.is_none_def)
  have c: "coord ?s = Returned" by code_simp
  have u: "uncaught ?s = [NoteUploadFailException ''503'']" by code_simp
  have two: "length (threads (the (upload_notebook ?E ''nb'' [Submit, Submit] w_idle))) = 2"
    by code_simp
  have blocked: "Option.is_none (upload_notebook ?E ''nb'' [Submit, Submit, Submit] w_idle)"
    by code_simp
  have p: "parallelism w_idle = 2" by (simp add: w_idle_def w_start_def)
  from bounded_concurrency [OF h1 h2] c u two blocked p show ?thesis by simp
qed

section \<open>When the ledger grows\<close>

lemma upload_note_calls_parse:
  assumes "\<not> DoneFile_contains (done_hashes w) (note_hash note)"
    and run: "EnexUploader_upload_note env nb note idx w = (r, note', w')"
  shows "\<exists>ev. trace w' = trace w @
      [Log DEBUG (msg_parsing (apply_tag_rule (rules w) note)),
       ParseCall (apply_tag_rule (rules w) note)] @ ev"
proof -
  let ?n = "apply_tag_rule (rules w) note"
  show ?thesis
  proof (cases "parse_note env ?n (rules w)")
    case (Inl e)
    with assms have "trace w' = trace w @ [Log DEBUG (msg_parsing ?n), ParseCall ?n] @
        (if isinstance_Exception e
         then [Log ERROR (msg_parse_failed ?n), Log DEBUG (exn_str e), Log DEBUG (msg_no_blocks ?n)]
         else [])"
      by (auto simp: EnexUploader_upload_note_def EnexUploader_parse_note_def Let_def
          log_record_def)
    then show ?thesis by blast
  next
    case (Inr blocks)
    show ?thesis
    proof (cases "blocks = []")
      case True
      with assms Inr have "trace w' = trace w @ [Log DEBUG (msg_parsing ?n), ParseCall ?n] @
          [Log DEBUG (msg_no_blocks ?n)]"
        by (auto simp: EnexUploader_upload_note_def EnexUploader_parse_note_def Let_def
            log_record_def)
      then show ?thesis by blast
    next
      case nonempty: False
      show ?thesis
      proof (cases nb)
        case None
        with assms Inr nonempty
        have "trace w' = trace w @ [Log DEBUG (msg_parsing ?n), ParseCall ?n] @ []"
          by (auto simp: EnexUploader_upload_note_def EnexUploader_parse_note_def Let_def
              log_record_def)
        then show ?thesis by blast
      next
        case (Some root)
        let ?head = "[Log DEBUG (msg_parsing ?n), ParseCall ?n,
            Log INFO (msg_uploading idx (notebook_notes_count w) ?n)]"
        let ?w3 = "w\<lparr>trace := trace w @ ?head\<rparr>"
        obtain r0 w4 where m: "module_upload_note env root ?n blocks ?w3 = (r0, w4)"
          by (cases "module_upload_note env root ?n blocks ?w3") auto
        from module_upload_note_effect [OF m] obtain pre x where
          w4: "w4 = ?w3\<lparr>trace := trace ?w3 @ pre @ [UploadCall root ?n blocks x]\<rparr>"
          by blast
        note shape = upload_note_reaches_upload [OF assms(1) Inr nonempty, of root idx]
        have "w' = w4 \<or> w' = snd (DoneFile_add (note_hash ?n) w4)"
          using run [unfolded Some shape m] by (cases r0) auto
        then have "trace w' = trace w @ [Log DEBUG (msg_parsing ?n), ParseCall ?n] @
           (Log INFO (msg_uploading idx (notebook_notes_count w) ?n) # pre @
              [UploadCall root ?n blocks x]) \<or>
          trace w' = trace w @ [Log DEBUG (msg_parsing ?n), ParseCall ?n] @
           (Log INFO (msg_uploading idx (notebook_notes_count w) ?n) # pre @
              [UploadCall root ?n blocks x, LedgerAdd (note_hash ?n)])"
          unfolding w4 by auto
        then show ?thesis by blast
      qed
    qed
  qed
qed

text \<open>
  A dry run: \<^verbatim>\<open>_get_notebook_root\<close> gives \<^verbatim>\<open>None\<close> when there is no import root, and
  with no destination container no step of \<^verbatim>\<open>upload_notebook\<close> uploads or touches
  the ledger.
\<close>

lemma dry_worker:
  assumes "EnexUploader_upload_note_with_release env None a idx w = (r, w')"
  shows "done_hashes w' = done_hashes w \<and> fs w' = fs w \<and>
    (\<exists>ev. trace w' = trace w @ ev \<and> (\<forall>e\<in>set ev. \<not> is_LedgerAdd e \<and> \<not> is_UploadCall e))"
proof -
  let ?w1 = "w\<lparr>heap := heap w @ [heap w ! a]\<rparr>"
  from with_release_effect [OF assms] obtain r0 note' u where
    u: "EnexUploader_upload_note env None (heap w ! a) idx ?w1 = (r0, note', u)"
    and ok: "semaphore w < parallelism w \<longrightarrow>
       r = r0 \<and> w' = u\<lparr>heap := heap w @ [note'], semaphore := Suc (semaphore w)\<rparr>"
    and full: "\<not> semaphore w < parallelism w \<longrightarrow>
       r = Inl (ValueError ''Semaphore released too many times'') \<and>
       w' = u\<lparr>heap := heap w @ [note']\<rparr>"
    by blast
  have same: "done_hashes w' = done_hashes u" "fs w' = fs u" "trace w' = trace u"
    using ok full by (cases "semaphore w < parallelism w"; simp)+
  from u show ?thesis
  proof (cases rule: upload_note_effect)
    case (untouched ev)
    then show ?thesis unfolding same by auto
  next
    case (added root blocks pre)
    then show ?thesis by simp
  qed
qed

lemma dry_run_step:
  assumes "notebook_root s = None" and "upload_notebook_step env act s = Some s'"
  shows "notebook_root s' = None \<and> done_hashes (shared s') = done_hashes (shared s) \<and>
    fs (shared s') = fs (shared s) \<and>
    (\<exists>ev. trace (shared s') = trace (shared s) @ ev \<and>
       (\<forall>e\<in>set ev. \<not> is_LedgerAdd e \<and> \<not> is_UploadCall e))"
proof (cases act)
  case Submit
  with assms(2) obtain n rest idx where c: "coord s = Submitting (n # rest) idx"
    and free: "0 < semaphore (shared s)"
    by (auto split: coord_pc.splits list.splits if_splits)
  with assms(2) Submit have s': "s' = s\<lparr>shared := (shared s)\<lparr>heap := heap (shared s) @ [n],
        semaphore := semaphore (shared s) - 1\<rparr>,
      coord := Submitting rest (idx + 1),
      threads := threads s @ [(length (heap (shared s)), idx)]\<rparr>"
    by simp
  show ?thesis using assms(1) unfolding s' by simp
next
  case EndLoop
  with assms(2) obtain idx where c: "coord s = Submitting [] idx"
    by (auto split: coord_pc.splits list.splits)
  with assms(2) EndLoop have s': "s' = s\<lparr>coord := Awaiting 0\<rparr>" by simp
  show ?thesis using assms(1) unfolding s' by simp
next
  case AwaitAcquire
  with assms(2) obtain k where c: "coord s = Awaiting k"
    and free: "k < parallelism (shared s)" "0 < semaphore (shared s)"
    by (auto split: coord_pc.splits if_splits)
  with assms(2) AwaitAcquire
  have s': "s' = s\<lparr>shared := (shared s)\<lparr>semaphore := semaphore (shared s) - 1\<rparr>,
      coord := Awaiting (k + 1)\<rparr>"
    by simp
  show ?thesis using assms(1) unfolding s' by simp
next
  case AwaitRelease
  with assms(2) obtain k where c: "coord s = Awaiting k"
    and k: "\<not> k < parallelism (shared s)"
    by (auto split: coord_pc.splits if_splits)
  with assms(2) AwaitRelease
  have "(\<exists>e. s' = s\<lparr>coord := Raised e\<rparr>) \<or>
    s' = s\<lparr>shared := (shared s)\<lparr>semaphore := semaphore (shared s) + parallelism (shared s)\<rparr>,
           coord := Returned\<rparr>"
    by (auto simp: semaphore_release_def split: if_splits)
  then show ?thesis using assms(1) by auto
next
  case (Run i)
  with assms(2) have i: "i < length (threads s)"
    by (simp split: if_splits)
  obtain a idx where t: "threads s ! i = (a, idx)" by (cases "threads s ! i") auto
  obtain r w' where
    run: "EnexUploader_upload_note_with_release env None a idx (shared s) = (r, w')"
    by (cases "EnexUploader_upload_note_with_release env None a idx (shared s)") auto
  have s': "s' = s\<lparr>shared := w',
      threads := take i (threads s) @ drop (Suc i) (threads s),
      uncaught := uncaught s @ (case r of Inl e \<Rightarrow> [e] | Inr u \<Rightarrow> [])\<rparr>"
    using assms Run i t run by simp
  from dry_worker [OF run] show ?thesis using assms(1) unfolding s' by simp
qed

lemma dry_run_exec:
  assumes "notebook_root s = None" and "upload_notebook_exec env acts s = Some s'"
  shows "notebook_root s' = None \<and> done_hashes (shared s') = done_hashes (shared s) \<and>
    fs (shared s') = fs (shared s) \<and>
    (\<exists>ev. trace (shared s') = trace (shared s) @ ev \<and>
       (\<forall>e\<in>set ev. \<not> is_LedgerAdd e \<and> \<not> is_UploadCall e))"
  using assms
proof (induction acts arbitrary: s)
  case Nil
  then show ?case by simp
next
  case (Cons act acts)
  then obtain s1 where s1: "upload_notebook_step env act s = Some s1"
    and rest: "upload_notebook_exec env acts s1 = Some s'"
    by (auto split: option.splits)
  note one = dry_run_step [OF Cons.prems(1) s1]
  then have nb: "notebook_root s1 = None" by simp
  note more = Cons.IH [OF nb rest]
  from one obtain ev1 where ev1: "trace (shared s1) = trace (shared s) @ ev1"
    "\<forall>e\<in>set ev1. \<not> is_LedgerAdd e \<and> \<not> is_UploadCall e"
    by blast
  from more obtain ev2 where ev2: "trace (shared s') = trace (shared s1) @ ev2"
    "\<forall>e\<in>set ev2. \<not> is_LedgerAdd e \<and> \<not> is_UploadCall e"
    by blast
  have "trace (shared s') = trace (shared s) @ (ev1 @ ev2) \<and>
    (\<forall>e\<in>set (ev1 @ ev2). \<not> is_LedgerAdd e \<and> \<not> is_UploadCall e)"
    using ev1 ev2 by auto
  then have "\<exists>ev. trace (shared s') = trace (shared s) @ ev \<and>
       (\<forall>e\<in>set ev. \<not> is_LedgerAdd e \<and> \<not> is_UploadCall e)"
    by blast
  with one more show ?case by simp
qed

lemma dry_run_batch:
  assumes "import_root u = None" and "upload_notebook env enex_file acts u = Some s"
  shows "notebook_root s = None \<and> done_hashes (shared s) = done_hashes u \<and>
    fs (shared s) = fs u \<and>
    (\<forall>e\<in>set (drop (length (trace u)) (trace (shared s))).
       \<not> is_LedgerAdd e \<and> \<not> is_UploadCall e)"
proof -
  let ?s0 = "upload_notebook_start env enex_file u"
  have nb: "notebook_root ?s0 = None"
    using assms(1)
    by (simp add: upload_notebook_start_def Let_def EnexUploader_get_notebook_root_def
        log_record_def)
  have s0: "done_hashes (shared ?s0) = done_hashes u" "fs (shared ?s0) = fs u"
    "trace (shared ?s0) = trace u @ [Log INFO (msg_processing (path_stem env enex_file))]"
    by (simp_all add: upload_notebook_start_def Let_def log_record_def)
  from dry_run_exec [OF nb assms(2) [unfolded upload_notebook_def]] obtain ev where
    a: "notebook_root s = None" "done_hashes (shared s) = done_hashes (shared ?s0)"
      "fs (shared s) = fs (shared ?s0)"
    and ev: "trace (shared s) = trace (shared ?s0) @ ev"
      "\<forall>e\<in>set ev. \<not> is_LedgerAdd e \<and> \<not> is_UploadCall e"
    by blast
  show ?thesis
    using a ev unfolding s0 by auto
qed

text \<open>
  Claim C10. One run of \<^verbatim>\<open>upload_note\<close> either leaves the ledger alone (no call of
  \<^verbatim>\<open>add\<close>, the same ledger, the same file system) or it ends with a successful upload
  call into a destination container that is not \<^verbatim>\<open>None\<close>, for a note that was not in
  the ledger and has blocks, followed at once by the one call of \<^verbatim>\<open>add\<close>, for the hash
  of this note. When there is no destination container, when the translation raises, or
  when it gives no blocks, the run is of the first kind. Such a note is processed again
  whenever it comes back: if its hash was not in the ledger, then in every later run on
  the ledger that is left, or on a ledger constructed from the files that are left, the
  pipeline calls the translation for the note again. With no import root
  \<^verbatim>\<open>_get_notebook_root\<close> gives \<^verbatim>\<open>None\<close>, and then a whole call of
  \<^verbatim>\<open>upload_notebook\<close>, under every schedule, makes no upload call and leaves the
  ledger and the file system as they were.
\<close>

theorem ledger_add_only_after_upload:
  assumes run: "EnexUploader_upload_note env nb note idx w = (r, note', w')"
    and again: "EnexUploader_upload_note env nb2 note idx2 v = (r2, note2, v')"
    and batch: "upload_notebook env enex_file acts u = Some s"
  shows
    "(\<exists>ev. trace w' = trace w @ ev \<and>
        ((\<forall>e\<in>set ev. \<not> is_LedgerAdd e) \<and> done_hashes w' = done_hashes w \<and> fs w' = fs w \<or>
         (\<exists>root blocks pre. nb = Some root \<and>
            \<not> DoneFile_contains (done_hashes w) (note_hash note) \<and>
            parse_note env note' (rules w) = Inr blocks \<and> blocks \<noteq> [] \<and>
            note_hash note' = note_hash note \<and>
            ev = pre @ [UploadCall root note' blocks None, LedgerAdd (note_hash note)] \<and>
            (\<forall>e\<in>set pre. \<not> is_LedgerAdd e) \<and>
            hashes_of (done_hashes w') = insert (note_hash note) (hashes_of (done_hashes w))))) \<and>
     (nb = None \<or> (\<exists>e. parse_note env (apply_tag_rule (rules w) note) (rules w) = Inl e) \<or>
        parse_note env (apply_tag_rule (rules w) note) (rules w) = Inr [] \<longrightarrow>
        done_hashes w' = done_hashes w \<and> fs w' = fs w \<and>
        (\<forall>e\<in>set (drop (length (trace w)) (trace w')). \<not> is_LedgerAdd e) \<and>
        (\<not> DoneFile_contains (done_hashes w) (note_hash note) \<and>
         (done_hashes v = done_hashes w' \<or>
          (\<exists>p. done_hashes v = DoneFile_init p (fs w') \<and>
               \<not> DoneFile_contains (DoneFile_init p (fs w)) (note_hash note))) \<longrightarrow>
           ParseCall (apply_tag_rule (rules v) note)
             \<in> set (drop (length (trace v)) (trace v')))) \<and>
     (import_root u = None \<longrightarrow>
        EnexUploader_get_notebook_root env (path_stem env enex_file) u = None \<and>
        notebook_root s = None \<and>
        done_hashes (shared s) = done_hashes u \<and> fs (shared s) = fs u \<and>
        (\<forall>e\<in>set (drop (length (trace u)) (trace (shared s))).
           \<not> is_LedgerAdd e \<and> \<not> is_UploadCall e))"
proof (intro conjI)
  show "\<exists>ev. trace w' = trace w @ ev \<and>
        ((\<forall>e\<in>set ev. \<not> is_LedgerAdd e) \<and> done_hashes w' = done_hashes w \<and> fs w' = fs w \<or>
         (\<exists>root blocks pre. nb = Some root \<and>
            \<not> DoneFile_contains (done_hashes w) (note_hash note) \<and>
            parse_note env note' (rules w) = Inr blocks \<and> blocks \<noteq> [] \<and>
            note_hash note' = note_hash note \<and>
            ev = pre @ [UploadCall root note' blocks None, LedgerAdd (note_hash note)] \<and>
            (\<forall>e\<in>set pre. \<not> is_LedgerAdd e) \<and>
            hashes_of (done_hashes w') = insert (note_hash note) (hashes_of (done_hashes w))))"
    using run
  proof (cases rule: upload_note_effect)
    case (untouched ev)
    then show ?thesis by (intro exI [of _ ev]) simp
  next
    case (added root blocks pre)
    have "trace w' = trace w @ pre @ [UploadCall root note' blocks None, LedgerAdd (note_hash note)]"
      "hashes_of (done_hashes w') = insert (note_hash note) (hashes_of (done_hashes w))"
      "note_hash note' = note_hash note"
      unfolding added(7) by (simp_all add: added(3))
    with added show ?thesis
      by (intro exI [of _ "pre @ [UploadCall root note' blocks None, LedgerAdd (note_hash note)]"])
        blast
  qed
next
  show "nb = None \<or> (\<exists>e. parse_note env (apply_tag_rule (rules w) note) (rules w) = Inl e) \<or>
        parse_note env (apply_tag_rule (rules w) note) (rules w) = Inr [] \<longrightarrow>
        done_hashes w' = done_hashes w \<and> fs w' = fs w \<and>
        (\<forall>e\<in>set (drop (length (trace w)) (trace w')). \<not> is_LedgerAdd e) \<and>
        (\<not> DoneFile_contains (done_hashes w) (note_hash note) \<and>
         (done_hashes v = done_hashes w' \<or>
          (\<exists>p. done_hashes v = DoneFile_init p (fs w') \<and>
               \<not> DoneFile_contains (DoneFile_init p (fs w)) (note_hash note))) \<longrightarrow>
           ParseCall (apply_tag_rule (rules v) note)
             \<in> set (drop (length (trace v)) (trace v')))"
  proof
    assume skip: "nb = None \<or>
      (\<exists>e. parse_note env (apply_tag_rule (rules w) note) (rules w) = Inl e) \<or>
      parse_note env (apply_tag_rule (rules w) note) (rules w) = Inr []"
    from run have same: "done_hashes w' = done_hashes w \<and> fs w' = fs w \<and>
        (\<forall>e\<in>set (drop (length (trace w)) (trace w')). \<not> is_LedgerAdd e)"
    proof (cases rule: upload_note_effect)
      case (untouched ev)
      then show ?thesis by simp
    next
      case (added root blocks pre)
      with skip show ?thesis by auto
    qed
    have rerun: "ParseCall (apply_tag_rule (rules v) note)
             \<in> set (drop (length (trace v)) (trace v'))"
      if h: "\<not> DoneFile_contains (done_hashes w) (note_hash note) \<and>
         (done_hashes v = done_hashes w' \<or>
          (\<exists>p. done_hashes v = DoneFile_init p (fs w') \<and>
               \<not> DoneFile_contains (DoneFile_init p (fs w)) (note_hash note)))"
    proof -
      have "\<not> DoneFile_contains (done_hashes v) (note_hash note)"
        using h same by auto
      from upload_note_calls_parse [OF this again] show ?thesis by auto
    qed
    from same rerun show "done_hashes w' = done_hashes w \<and> fs w' = fs w \<and>
        (\<forall>e\<in>set (drop (length (trace w)) (trace w')). \<not> is_LedgerAdd e) \<and>
        (\<not> DoneFile_contains (done_hashes w) (note_hash note) \<and>
         (done_hashes v = done_hashes w' \<or>
          (\<exists>p. done_hashes v = DoneFile_init p (fs w') \<and>
               \<not> DoneFile_contains (DoneFile_init p (fs w)) (note_hash note))) \<longrightarrow>
           ParseCall (apply_tag_rule (rules v) note)
             \<in> set (drop (length (trace v)) (trace v')))"
      by blast
  qed
next
  show "import_root u = None \<longrightarrow>
        EnexUploader_get_notebook_root env (path_stem env enex_file) u = None \<and>
        notebook_root s = None \<and>
        done_hashes (shared s) = done_hashes u \<and> fs (shared s) = fs u \<and>
        (\<forall>e\<in>set (drop (length (trace u)) (trace (shared s))).
           \<not> is_LedgerAdd e \<and> \<not> is_UploadCall e)"
  proof
    assume dry: "import_root u = None"
    then have "EnexUploader_get_notebook_root env (path_stem env enex_file) u = None"
      by (simp add: EnexUploader_get_notebook_root_def)
    with dry_run_batch [OF dry batch] show
      "EnexUploader_get_notebook_root env (path_stem env enex_file) u = None \<and>
        notebook_root s = None \<and>
        done_hashes (shared s) = done_hashes u \<and> fs (shared s) = fs u \<and>
        (\<forall>e\<in>set (drop (length (trace u)) (trace (shared s))).
           \<not> is_LedgerAdd e \<and> \<not> is_UploadCall e)"
      by simp
  qed
qed

theorem ledger_add_only_after_upload_witness:
  "done_hashes (snd (snd (EnexUploader_upload_note env_no_blocks (Some ''nb'') note_a 1 w_start)))
     = DoneFile ''done.txt'' {} \<and>
   fs (snd (snd (EnexUploader_upload_note env_no_blocks (Some ''nb'') note_a 1 w_start)))
     = Map.empty \<and>
   ParseCall (note_a\<lparr>tags := [''x'', ''evernote'']\<rparr>)
     \<in> set (drop
         (length (trace (snd (snd (EnexUploader_upload_note env_no_blocks (Some ''nb'') note_a 1 w_start)))))
         (trace (snd (snd (EnexUploader_upload_note env_no_blocks (Some ''nb'') note_a 2
            (snd (snd (EnexUploader_upload_note env_no_blocks (Some ''nb'') note_a 1 w_start)))))))) \<and>
   done_hashes (snd (snd (EnexUploader_upload_note (env_script (fail_first 0)) None note_a 1 w_start)))
     = DoneFile ''done.txt'' {} \<and>
   notebook_root (the (upload_notebook (env_script (fail_first 0)) ''nb'' schedule_3 w_dry)) = None \<and>
   done_hashes (shared (the (upload_notebook (env_script (fail_first 0)) ''nb'' schedule_3 w_dry)))
     = DoneFile ''done.txt'' {} \<and>
   fs (shared (the (upload_notebook (env_script (fail_first 0)) ''nb'' schedule_3 w_dry))) = Map.empty"
proof -
  let ?E = "env_script (fail_first 0)"
  let ?X = "EnexUploader_upload_note env_no_blocks (Some ''nb'') note_a 1 w_start"
  let ?X2 = "EnexUploader_upload_note env_no_blocks (Some ''nb'') note_a 2 (snd (snd ?X))"
  let ?Y = "EnexUploader_upload_note ?E None note_a 1 w_start"
  let ?S = "the (upload_notebook ?E ''nb'' schedule_3 w_dry)"
  let ?T = "the (upload_notebook env_no_blocks ''nb'' schedule_3 w_dry)"
  have x: "?X = (fst ?X, fst (snd ?X), snd (snd ?X))" by simp
  have x2: "?X2 = (fst ?X2, fst (snd ?X2), snd (snd ?X2))" by simp
  have y: "?Y = (fst ?Y, fst (snd ?Y), snd (snd ?Y))" by simp
  have "\<not> Option.is_none (upload_notebook ?E ''nb'' schedule_3 w_dry)" by code_simp
  then have s: "upload_notebook ?E ''nb'' schedule_3 w_dry = Some ?S"
    by (simp add: Option.is_none_def)
  have "\<not> Option.is_none (upload_notebook env_no_blocks ''nb'' schedule_3 w_dry)" by code_simp
  then have t: "upload_notebook env_no_blocks ''nb'' schedule_3 w_dry = Some ?T"
    by (simp add: Option.is_none_def)
  have c0: "done_hashes w_start = DoneFile ''done.txt'' {}" "fs w_start = Map.empty"
    "note_hash note_a = ''h1''" "import_root w_dry = None"
    "done_hashes w_dry = DoneFile ''done.txt'' {}" "fs w_dry = Map.empty"
    "apply_tag_rule (rules w_start) note_a = note_a\<lparr>tags := [''x'', ''evernote'']\<rparr>"
    by (simp_all add: w_start_def w_dry_def w_idle_def note_a_def apply_tag_rule_def)
  have p: "parse_note env_no_blocks (apply_tag_rule (rules w_start) note_a) (rules w_start) = Inr []"
    by (simp add: env_no_blocks_def)
  have nd: "\<not> DoneFile_contains (done_hashes w_start) (note_hash note_a)"
    by (simp add: c0 DoneFile_contains_def)
  have r: "rules (snd (snd ?X)) = rules w_start"
    by (rule upload_note_frame(4) [OF x])
  from ledger_add_only_after_upload [OF x x2 t] p nd r
  have a: "done_hashes (snd (snd ?X)) = DoneFile ''done.txt'' {} \<and> fs (snd (snd ?X)) = Map.empty \<and>
    ParseCall (note_a\<lparr>tags := [''x'', ''evernote'']\<rparr>)
     \<in> set (drop (length (trace (snd (snd ?X)))) (trace (snd (snd ?X2))))"
    by (simp add: c0)
  from ledger_add_only_after_upload [OF y y s]
  have b: "done_hashes (snd (snd ?Y)) = DoneFile ''done.txt'' {} \<and>
    notebook_root ?S = None \<and> done_hashes (shared ?S) = DoneFile ''done.txt'' {} \<and>
    fs (shared ?S) = Map.empty"
    by (simp add: c0)
  from a b show ?thesis by simp
qed

section \<open>Two runs on the same ledger file\<close>

lemma upload_notebook_step_cases:
  assumes "upload_notebook_step env act s = Some s'"
  obtains (submit) n rest idx where "act = Submit" "coord s = Submitting (n # rest) idx"
      "s' = s\<lparr>shared := (shared s)\<lparr>heap := heap (shared s) @ [n],
              semaphore := semaphore (shared s) - 1\<rparr>,
            coord := Submitting rest (idx + 1),
            threads := threads s @ [(length (heap (shared s)), idx)]\<rparr>"
  | (endloop) idx where "act = EndLoop" "coord s = Submitting [] idx" "s' = s\<lparr>coord := Awaiting 0\<rparr>"
  | (acquire) k where "act = AwaitAcquire" "coord s = Awaiting k"
      "s' = s\<lparr>shared := (shared s)\<lparr>semaphore := semaphore (shared s) - 1\<rparr>,
            coord := Awaiting (k + 1)\<rparr>"
  | (raised) k e where "act = AwaitRelease" "coord s = Awaiting k" "s' = s\<lparr>coord := Raised e\<rparr>"
  | (returned) k where "act = AwaitRelease" "coord s = Awaiting k"
      "s' = s\<lparr>shared := (shared s)\<lparr>semaphore := semaphore (shared s) + parallelism (shared s)\<rparr>,
            coord := Returned\<rparr>"
  | (run) i a idx r w' where "act = Run i" "i < length (threads s)" "threads s ! i = (a, idx)"
      "EnexUploader_upload_note_with_release env (notebook_root s) a idx (shared s) = (r, w')"
      "s' = s\<lparr>shared := w',
            threads := take i (threads s) @ drop (Suc i) (threads s),
            uncaught := uncaught s @ (case r of Inl e \<Rightarrow> [e] | Inr u \<Rightarrow> [])\<rparr>"
proof (cases act)
  case Submit
  with assms obtain n rest idx where c: "coord s = Submitting (n # rest) idx"
    and free: "0 < semaphore (shared s)"
    by (auto split: coord_pc.splits list.splits if_splits)
  with assms Submit have "s' = s\<lparr>shared := (shared s)\<lparr>heap := heap (shared s) @ [n],
        semaphore := semaphore (shared s) - 1\<rparr>,
      coord := Submitting rest (idx + 1),
      threads := threads s @ [(length (heap (shared s)), idx)]\<rparr>"
    by simp
  with Submit c show thesis by (rule submit)
next
  case EndLoop
  with assms obtain idx where c: "coord s = Submitting [] idx"
    by (auto split: coord_pc.splits list.splits)
  with assms EndLoop have "s' = s\<lparr>coord := Awaiting 0\<rparr>" by simp
  with EndLoop c show thesis by (rule endloop)
next
  case AwaitAcquire
  with assms obtain k where c: "coord s = Awaiting k"
    and free: "k < parallelism (shared s)" "0 < semaphore (shared s)"
    by (auto split: coord_pc.splits if_splits)
  with assms AwaitAcquire
  have "s' = s\<lparr>shared := (shared s)\<lparr>semaphore := semaphore (shared s) - 1\<rparr>,
      coord := Awaiting (k + 1)\<rparr>"
    by simp
  with AwaitAcquire c show thesis by (rule acquire)
next
  case AwaitRelease
  with assms obtain k where c: "coord s = Awaiting k"
    and k: "\<not> k < parallelism (shared s)"
    by (auto split: coord_pc.splits if_splits)
  with assms AwaitRelease
  have "(\<exists>e. s' = s\<lparr>coord := Raised e\<rparr>) \<or>
    s' = s\<lparr>shared := (shared s)\<lparr>semaphore := semaphore (shared s) + parallelism (shared s)\<rparr>,
           coord := Returned\<rparr>"
    by (auto simp: semaphore_release_def split: if_splits)
  then show thesis
  proof
    assume "\<exists>e. s' = s\<lparr>coord := Raised e\<rparr>"
    then obtain e where "s' = s\<lparr>coord := Raised e\<rparr>" by blast
    with AwaitRelease c show thesis by (rule raised)
  next
    assume "s' = s\<lparr>shared := (shared s)\<lparr>semaphore := semaphore (shared s) + parallelism (shared s)\<rparr>,
           coord := Returned\<rparr>"
    with AwaitRelease c show thesis by (rule returned)
  qed
next
  case (Run i)
  with assms have i: "i < length (threads s)"
    by (simp split: if_splits)
  obtain a idx where t: "threads s ! i = (a, idx)" by (cases "threads s ! i") auto
  obtain r w' where
    wr: "EnexUploader_upload_note_with_release env (notebook_root s) a idx (shared s) = (r, w')"
    by (cases "EnexUploader_upload_note_with_release env (notebook_root s) a idx (shared s)") auto
  have "s' = s\<lparr>shared := w',
      threads := take i (threads s) @ drop (Suc i) (threads s),
      uncaught := uncaught s @ (case r of Inl e \<Rightarrow> [e] | Inr u \<Rightarrow> [])\<rparr>"
    using assms Run i t wr by simp
  with Run i t wr show thesis by (rule run)
qed

text \<open>
  All that one worker does to the state that the workers share, in terms of the note
  that it was started on.
\<close>

lemma worker_effect:
  assumes "EnexUploader_upload_note_with_release env nb a idx w = (r, w')"
  shows "rules w' = rules w \<and> append_error w' = append_error w \<and>
    (\<exists>c. heap w' = heap w @ [c]) \<and>
    (\<exists>ev. trace w' = trace w @ ev \<and>
       (\<forall>e\<in>set ev. is_UploadCall e \<longrightarrow>
          (\<exists>c n b y. e = UploadCall c n b y \<and> note_hash n = note_hash (heap w ! a) \<and>
             note_hash (heap w ! a) \<notin> hashes_of (done_hashes w)))) \<and>
    (done_hashes w' = done_hashes w \<and> fs w' = fs w \<or>
     note_hash (heap w ! a) \<notin> hashes_of (done_hashes w) \<and>
     done_hashes w' = done_hashes (snd (DoneFile_add (note_hash (heap w ! a)) w)) \<and>
     fs w' = fs (snd (DoneFile_add (note_hash (heap w ! a)) w)))"
proof -
  let ?note = "heap w ! a"
  let ?w1 = "w\<lparr>heap := heap w @ [?note]\<rparr>"
  from with_release_effect [OF assms] obtain r0 note' u where
    u: "EnexUploader_upload_note env nb ?note idx ?w1 = (r0, note', u)"
    and ok: "semaphore w < parallelism w \<longrightarrow>
       r = r0 \<and> w' = u\<lparr>heap := heap w @ [note'], semaphore := Suc (semaphore w)\<rparr>"
    and full: "\<not> semaphore w < parallelism w \<longrightarrow>
       r = Inl (ValueError ''Semaphore released too many times'') \<and>
       w' = u\<lparr>heap := heap w @ [note']\<rparr>"
    by blast
  have same: "done_hashes w' = done_hashes u" "fs w' = fs u" "trace w' = trace u"
    "rules w' = rules u" "append_error w' = append_error u" "heap w' = heap w @ [note']"
    using ok full by (cases "semaphore w < parallelism w"; simp)+
  have add: "done_hashes (snd (DoneFile_add h (v\<lparr>heap := hp, trace := tr\<rparr>)))
      = done_hashes (snd (DoneFile_add h v)) \<and>
    fs (snd (DoneFile_add h (v\<lparr>heap := hp, trace := tr\<rparr>))) = fs (snd (DoneFile_add h v))"
    for h v hp tr
    by (simp add: DoneFile_add_def Let_def split: done_store.splits option.splits)
  from u show ?thesis
  proof (cases rule: upload_note_effect)
    case (untouched ev)
    then show ?thesis unfolding same by (auto simp: DoneFile_contains_def)
  next
    case (added root blocks pre)
    have tr: "trace u = trace w @ pre @ [UploadCall root note' blocks None, LedgerAdd (note_hash ?note)]"
      unfolding added(7) by simp
    have ev: "\<forall>e\<in>set (pre @ [UploadCall root note' blocks None, LedgerAdd (note_hash ?note)]).
       is_UploadCall e \<longrightarrow>
          (\<exists>c n b y. e = UploadCall c n b y \<and> note_hash n = note_hash ?note \<and>
             note_hash ?note \<notin> hashes_of (done_hashes w))"
      using added(2,3,9) by (auto simp: DoneFile_contains_def)
    have fr: "rules u = rules w" "append_error u = append_error w"
      unfolding added(7) by simp_all
    have led: "done_hashes u = done_hashes (snd (DoneFile_add (note_hash ?note) w))"
      "fs u = fs (snd (DoneFile_add (note_hash ?note) w))"
      unfolding added(7) by (simp_all add: add)
    have nd: "note_hash ?note \<notin> hashes_of (done_hashes w)"
      using added(2) by (simp add: DoneFile_contains_def)
    show ?thesis
      unfolding same using tr ev fr led nd by blast
  qed
qed

lemma worker_ledger:
  assumes "EnexUploader_upload_note_with_release env nb a idx w = (r, w')"
  shows "hashes_of (done_hashes w) \<subseteq> hashes_of (done_hashes w')"
    "hashes_of (done_hashes w') \<subseteq> insert (note_hash (heap w ! a)) (hashes_of (done_hashes w))"
  using worker_effect [OF assms] by auto

lemma running_notes_submit:
  assumes "\<forall>t\<in>set (threads s). fst t < length (heap (shared s))"
  shows "running_notes (s\<lparr>shared := (shared s)\<lparr>heap := heap (shared s) @ [n],
              semaphore := m\<rparr>,
            coord := c,
            threads := threads s @ [(length (heap (shared s)), idx)]\<rparr>)
    = running_notes s @ [n]"
  using assms by (simp add: running_notes_def nth_append)

lemma running_notes_run:
  assumes "\<forall>t\<in>set (threads s). fst t < length (heap (shared s))"
    and "heap w' = heap (shared s) @ [c]"
  shows "running_notes (s\<lparr>shared := w',
            threads := take i (threads s) @ drop (Suc i) (threads s),
            uncaught := u\<rparr>)
    = take i (running_notes s) @ drop (Suc i) (running_notes s)"
proof -
  have ext: "map (\<lambda>t. (heap (shared s) @ [c]) ! fst t) ts = map (\<lambda>t. heap (shared s) ! fst t) ts"
    if "set ts \<subseteq> set (threads s)" for ts
    using that assms(1) by (auto simp: nth_append)
  have "map (\<lambda>t. (heap (shared s) @ [c]) ! fst t) (take i (threads s))
      = map (\<lambda>t. heap (shared s) ! fst t) (take i (threads s))"
    by (rule ext) (rule set_take_subset)
  moreover have "map (\<lambda>t. (heap (shared s) @ [c]) ! fst t) (drop (Suc i) (threads s))
      = map (\<lambda>t. heap (shared s) ! fst t) (drop (Suc i) (threads s))"
    by (rule ext) (rule set_drop_subset)
  ultimately show ?thesis
    using assms(2) by (simp add: running_notes_def take_map drop_map)
qed

lemma set_remove_nth:
  "set (take i xs @ drop (Suc i) xs) \<subseteq> set xs"
  using set_take_subset [of i xs] set_drop_subset [of "Suc i" xs] by auto

lemma set_with_nth:
  "i < length xs \<Longrightarrow> set xs = insert (xs ! i) (set (take i xs @ drop (Suc i) xs))"
  using id_take_nth_drop [of i xs] by (metis Un_insert_right list.simps(15) set_append)

lemma resume_inv_step:
  assumes inv: "resume_inv N s0 s" and step: "upload_notebook_step env act s = Some s'"
  shows "resume_inv N s0 s'"
proof -
  from inv have r: "rules (shared s) = rules (shared s0)"
    and nb: "notebook_root s = notebook_root s0"
    and ae: "append_error (shared s) = append_error (shared s0)"
    and lo: "hashes_of (done_hashes (shared s0)) \<subseteq> hashes_of (done_hashes (shared s))"
    and hi: "hashes_of (done_hashes (shared s)) \<subseteq> hashes_of (done_hashes (shared s0)) \<union> tokens_of N"
    and th: "\<forall>t\<in>set (threads s). fst t < length (heap (shared s))"
    and rn: "set (running_notes s) \<subseteq> set N"
    and wn: "set (waiting_notes s) \<subseteq> set N"
    unfolding resume_inv_def by simp_all
  from inv obtain ev where ev: "trace (shared s) = trace (shared s0) @ ev"
    "\<forall>e\<in>set ev. is_UploadCall e \<longrightarrow>
            (\<exists>c n b y. e = UploadCall c n b y \<and> note_hash n \<in> tokens_of N \<and>
               note_hash n \<notin> hashes_of (done_hashes (shared s0)))"
    unfolding resume_inv_def by blast
  from step show ?thesis
  proof (cases rule: upload_notebook_step_cases)
    case (submit n rest idx)
    have n: "n \<in> set N" "set rest \<subseteq> set N"
      using wn submit(2) by (simp_all add: waiting_notes_def)
    have rn': "running_notes s' = running_notes s @ [n]"
      unfolding submit(3) by (rule running_notes_submit [OF th])
    have a: "set (running_notes s') \<subseteq> set N" unfolding rn' using rn n by simp
    have b: "set (waiting_notes s') \<subseteq> set N"
      unfolding submit(3) using n by (simp add: waiting_notes_def)
    have c: "\<forall>t\<in>set (threads s'). fst t < length (heap (shared s'))"
      unfolding submit(3) using th by auto
    have d: "shared s' = (shared s)\<lparr>heap := heap (shared s) @ [n],
              semaphore := semaphore (shared s) - 1\<rparr>" "notebook_root s' = notebook_root s"
      unfolding submit(3) by simp_all
    show ?thesis
      unfolding resume_inv_def using a b c r nb ae lo hi ev unfolding d by simp
  next
    case (endloop idx)
    have a: "running_notes s' = running_notes s" "waiting_notes s' = []"
      unfolding endloop(3) by (simp_all add: running_notes_def waiting_notes_def)
    have d: "shared s' = shared s" "notebook_root s' = notebook_root s" "threads s' = threads s"
      unfolding endloop(3) by simp_all
    show ?thesis
      unfolding resume_inv_def a d using r nb ae lo hi th rn ev by simp
  next
    case (acquire k)
    have a: "running_notes s' = running_notes s" "waiting_notes s' = []"
      unfolding acquire(3) by (simp_all add: running_notes_def waiting_notes_def)
    have d: "shared s' = (shared s)\<lparr>semaphore := semaphore (shared s) - 1\<rparr>"
      "notebook_root s' = notebook_root s" "threads s' = threads s"
      unfolding acquire(3) by simp_all
    show ?thesis
      unfolding resume_inv_def a d using r nb ae lo hi th rn ev by simp
  next
    case (raised k e)
    have a: "running_notes s' = running_notes s" "waiting_notes s' = []"
      unfolding raised(3) by (simp_all add: running_notes_def waiting_notes_def)
    have d: "shared s' = shared s" "notebook_root s' = notebook_root s" "threads s' = threads s"
      unfolding raised(3) by simp_all
    show ?thesis
      unfolding resume_inv_def a d using r nb ae lo hi th rn ev by simp
  next
    case (returned k)
    have a: "running_notes s' = running_notes s" "waiting_notes s' = []"
      unfolding returned(3) by (simp_all add: running_notes_def waiting_notes_def)
    have d: "shared s' = (shared s)\<lparr>semaphore := semaphore (shared s) + parallelism (shared s)\<rparr>"
      "notebook_root s' = notebook_root s" "threads s' = threads s"
      unfolding returned(3) by simp_all
    show ?thesis
      unfolding resume_inv_def a d using r nb ae lo hi th rn ev by simp
  next
    case (run i a idx res w')
    let ?h = "note_hash (heap (shared s) ! a)"
    have cur: "running_notes s ! i = heap (shared s) ! a"
      using run(2,3) by (simp add: running_notes_def)
    have "running_notes s ! i \<in> set (running_notes s)"
      using run(2) by (simp add: running_notes_def)
    with rn cur have inN: "heap (shared s) ! a \<in> set N" by auto
    then have hN: "?h \<in> tokens_of N" by (simp add: tokens_of_def)
    from worker_effect [OF run(4)] obtain c ev' where
      fr: "rules w' = rules (shared s)" "append_error w' = append_error (shared s)"
      and hp: "heap w' = heap (shared s) @ [c]"
      and ev': "trace w' = trace (shared s) @ ev'"
        "\<forall>e\<in>set ev'. is_UploadCall e \<longrightarrow>
          (\<exists>c n b y. e = UploadCall c n b y \<and> note_hash n = ?h \<and>
             ?h \<notin> hashes_of (done_hashes (shared s)))"
      by blast
    note led = worker_ledger [OF run(4)]
    have sh: "shared s' = w'" "notebook_root s' = notebook_root s"
      "threads s' = take i (threads s) @ drop (Suc i) (threads s)"
      "waiting_notes s' = waiting_notes s"
      unfolding run(5) by (simp_all add: waiting_notes_def)
    have rn': "running_notes s' = take i (running_notes s) @ drop (Suc i) (running_notes s)"
      unfolding run(5) by (rule running_notes_run [OF th hp])
    have a1: "set (running_notes s') \<subseteq> set N"
      unfolding rn' using set_remove_nth [of i "running_notes s"] rn by blast
    have a2: "\<forall>t\<in>set (threads s'). fst t < length (heap (shared s'))"
    proof
      fix t assume "t \<in> set (threads s')"
      then have "t \<in> set (threads s)"
        unfolding sh using set_remove_nth [of i "threads s"] by blast
      with th have "fst t < length (heap (shared s))" by blast
      then show "fst t < length (heap (shared s'))" unfolding sh hp by simp
    qed
    have a3: "hashes_of (done_hashes (shared s0)) \<subseteq> hashes_of (done_hashes w')"
      using lo led(1) by blast
    have a4: "hashes_of (done_hashes w') \<subseteq> hashes_of (done_hashes (shared s0)) \<union> tokens_of N"
      using hi led(2) hN by blast
    have a5: "trace w' = trace (shared s0) @ (ev @ ev')"
      unfolding ev'(1) ev(1) by simp
    have a6: "\<forall>e\<in>set (ev @ ev'). is_UploadCall e \<longrightarrow>
            (\<exists>c n b y. e = UploadCall c n b y \<and> note_hash n \<in> tokens_of N \<and>
               note_hash n \<notin> hashes_of (done_hashes (shared s0)))"
    proof
      fix e assume "e \<in> set (ev @ ev')"
      then consider "e \<in> set ev" | "e \<in> set ev'" by auto
      then show "is_UploadCall e \<longrightarrow>
            (\<exists>c n b y. e = UploadCall c n b y \<and> note_hash n \<in> tokens_of N \<and>
               note_hash n \<notin> hashes_of (done_hashes (shared s0)))"
      proof cases
        case 1
        with ev(2) show ?thesis by blast
      next
        case 2
        show ?thesis
        proof
          assume "is_UploadCall e"
          with ev'(2) 2 obtain c n b y where "e = UploadCall c n b y" "note_hash n = ?h"
            "?h \<notin> hashes_of (done_hashes (shared s))"
            by blast
          with hN lo show "\<exists>c n b y. e = UploadCall c n b y \<and> note_hash n \<in> tokens_of N \<and>
               note_hash n \<notin> hashes_of (done_hashes (shared s0))"
            by auto
        qed
      qed
    qed
    from a5 a6 have a7: "\<exists>ev. trace w' = trace (shared s0) @ ev \<and>
         (\<forall>e\<in>set ev. is_UploadCall e \<longrightarrow>
            (\<exists>c n b y. e = UploadCall c n b y \<and> note_hash n \<in> tokens_of N \<and>
               note_hash n \<notin> hashes_of (done_hashes (shared s0))))"
      by blast
    show ?thesis
      unfolding resume_inv_def sh using a1 a2 [unfolded sh] a3 a4 a7 fr r nb ae wn by simp
  qed
qed

lemma resume_inv_exec:
  assumes "resume_inv N s0 s" and "upload_notebook_exec env acts s = Some s'"
  shows "resume_inv N s0 s'"
  using assms
proof (induction acts arbitrary: s)
  case Nil
  then show ?case by simp
next
  case (Cons act acts)
  then obtain s1 where s1: "upload_notebook_step env act s = Some s1"
    and rest: "upload_notebook_exec env acts s1 = Some s'"
    by (auto split: option.splits)
  from Cons.IH [OF resume_inv_step [OF Cons.prems(1) s1] rest] show ?case .
qed

lemma resume_inv_start:
  "resume_inv (iter_notes env enex_file) (upload_notebook_start env enex_file u)
     (upload_notebook_start env enex_file u)"
  by (simp add: resume_inv_def upload_notebook_start_def Let_def running_notes_def
      waiting_notes_def)

lemma file_inv_step:
  assumes inv: "resume_inv N s0 s"
    and clean: "\<forall>n\<in>set N. clean_token (note_hash n)"
    and ae: "append_error (shared s0) p = None"
    and fl: "file_inv p s"
    and step: "upload_notebook_step env act s = Some s'"
  shows "file_inv p s'"
  using step
proof (cases rule: upload_notebook_step_cases)
  case (submit n rest idx)
  show ?thesis using fl unfolding submit(3) by (simp add: file_inv_def)
next
  case (endloop idx)
  show ?thesis using fl unfolding endloop(3) by (simp add: file_inv_def)
next
  case (acquire k)
  show ?thesis using fl unfolding acquire(3) by (simp add: file_inv_def)
next
  case (raised k e)
  show ?thesis using fl unfolding raised(3) by (simp add: file_inv_def)
next
  case (returned k)
  show ?thesis using fl unfolding returned(3) by (simp add: file_inv_def)
next
  case (run i a idx res w')
  let ?w = "shared s"
  let ?h = "note_hash (heap ?w ! a)"
  let ?toks = "file_tokens p (fs ?w)"
  from fl have d: "done_hashes ?w = DoneFile p (set ?toks)"
    and nl: "newline_ended (file_text p (fs ?w))" and dist: "distinct ?toks"
    unfolding file_inv_def by simp_all
  from inv have rn: "set (running_notes s) \<subseteq> set N"
    and ae': "append_error ?w = append_error (shared s0)"
    unfolding resume_inv_def by simp_all
  have "running_notes s ! i = heap ?w ! a"
    using run(2,3) by (simp add: running_notes_def)
  moreover have "running_notes s ! i \<in> set (running_notes s)"
    using run(2) by (simp add: running_notes_def)
  ultimately have "heap ?w ! a \<in> set N" using rn by auto
  with clean have cl: "clean_token ?h" by blast
  have open_ok: "append_error ?w p = None" using ae ae' by simp
  have sh: "shared s' = w'" unfolding run(5) by simp
  from worker_effect [OF run(4)]
  consider (same) "done_hashes w' = done_hashes ?w" "fs w' = fs ?w"
    | (added) "?h \<notin> hashes_of (done_hashes ?w)"
      "done_hashes w' = done_hashes (snd (DoneFile_add ?h ?w))"
      "fs w' = fs (snd (DoneFile_add ?h ?w))"
    by blast
  then show ?thesis
  proof cases
    case same
    then show ?thesis using fl unfolding file_inv_def sh by simp
  next
    case added
    note wr = DoneFile_add_written [OF d open_ok, of ?h]
    have new: "?h \<notin> set ?toks" using added(1) d by simp
    have toks: "file_tokens p (fs w') = ?toks @ [?h]"
      unfolding added(3) wr(3) by (rule file_tokens_append [OF cl nl])
    have "done_hashes w' = DoneFile p (set (file_tokens p (fs w')))"
      unfolding toks unfolding added(2) wr(2) by simp
    moreover have "newline_ended (file_text p (fs w'))"
      unfolding added(3) wr(3) by (rule append_file_newline_ended)
    moreover have "distinct (file_tokens p (fs w'))"
      unfolding toks using dist new by simp
    ultimately show ?thesis unfolding file_inv_def sh by simp
  qed
qed

text \<open>
  A worker whose note has blocks, with a destination container and an upload that
  returns within the five attempts, leaves the hash of its note in the ledger.
\<close>

lemma worker_completes:
  assumes run: "EnexUploader_upload_note_with_release env (Some root) a idx w = (r, w')"
    and parse: "parse_note env (apply_tag_rule (rules w) (heap w ! a)) (rules w) = Inr blocks"
    and nonempty: "blocks \<noteq> []"
    and upload: "\<forall>i c n b. \<exists>k<5.
        (\<forall>j<k. \<exists>m. upload_note env (i + j) c n b = Some (NoteUploadFailException m)) \<and>
        upload_note env (i + k) c n b = None"
  shows "note_hash (heap w ! a) \<in> hashes_of (done_hashes w')"
proof -
  let ?note = "heap w ! a"
  let ?w1 = "w\<lparr>heap := heap w @ [?note]\<rparr>"
  from with_release_effect [OF run] obtain r0 note' u where
    u: "EnexUploader_upload_note env (Some root) ?note idx ?w1 = (r0, note', u)"
    and ok: "semaphore w < parallelism w \<longrightarrow>
       r = r0 \<and> w' = u\<lparr>heap := heap w @ [note'], semaphore := Suc (semaphore w)\<rparr>"
    and full: "\<not> semaphore w < parallelism w \<longrightarrow>
       r = Inl (ValueError ''Semaphore released too many times'') \<and>
       w' = u\<lparr>heap := heap w @ [note']\<rparr>"
    by blast
  have same: "done_hashes w' = done_hashes u"
    using ok full by (cases "semaphore w < parallelism w"; simp)
  show ?thesis
  proof (cases "DoneFile_contains (done_hashes ?w1) (note_hash ?note)")
    case True
    from u [unfolded dedup_shape [OF True]] have "done_hashes u = done_hashes w" by auto
    with True show ?thesis unfolding same by (simp add: DoneFile_contains_def)
  next
    case False
    let ?n = "apply_tag_rule (rules ?w1) ?note"
    let ?w3 = "?w1\<lparr>trace := trace ?w1 @
           [Log DEBUG (msg_parsing ?n), ParseCall ?n,
            Log INFO (msg_uploading idx (notebook_notes_count ?w1) ?n)]\<rparr>"
    have p: "parse_note env ?n (rules ?w1) = Inr blocks" using parse by simp
    from upload obtain k where k: "k < 5"
      and fails: "\<forall>j<k. \<exists>m. upload_note env (upload_count ?w3 + j) root ?n blocks
          = Some (NoteUploadFailException m)"
      and succ: "upload_note env (upload_count ?w3 + k) root ?n blocks = None"
      by blast
    note shape = upload_note_reaches_upload [OF False p nonempty, of root idx]
    from u [unfolded shape module_upload_note_success [OF k fails succ]]
    have "\<exists>v. u = snd (DoneFile_add (note_hash ?n) v)" by auto
    then obtain v where "u = snd (DoneFile_add (note_hash ?n) v)" by blast
    then have "note_hash ?n \<in> hashes_of (done_hashes u)" by simp
    then show ?thesis unfolding same by simp
  qed
qed

lemma tokens_of_remove_nth:
  assumes "i < length xs"
  shows "tokens_of xs = insert (note_hash (xs ! i)) (tokens_of (take i xs @ drop (Suc i) xs))"
  unfolding tokens_of_def using set_with_nth [OF assms] by (metis image_insert)

lemma complete_inv_step:
  assumes inv: "resume_inv N s0 s"
    and root: "notebook_root s0 = Some root"
    and parse: "\<forall>n\<in>set N. \<exists>blocks.
        parse_note env (apply_tag_rule (rules (shared s0)) n) (rules (shared s0)) = Inr blocks \<and>
        blocks \<noteq> []"
    and upload: "\<forall>i c n b. \<exists>k<5.
        (\<forall>j<k. \<exists>m. upload_note env (i + j) c n b = Some (NoteUploadFailException m)) \<and>
        upload_note env (i + k) c n b = None"
    and comp: "complete_inv N s"
    and step: "upload_notebook_step env act s = Some s'"
  shows "complete_inv N s'"
proof -
  from inv have th: "\<forall>t\<in>set (threads s). fst t < length (heap (shared s))"
    and rn: "set (running_notes s) \<subseteq> set N"
    and r: "rules (shared s) = rules (shared s0)"
    and nb: "notebook_root s = notebook_root s0"
    unfolding resume_inv_def by simp_all
  from step show ?thesis
  proof (cases rule: upload_notebook_step_cases)
    case (submit n rest idx)
    have rn': "running_notes s' = running_notes s @ [n]"
      unfolding submit(3) by (rule running_notes_submit [OF th])
    have "waiting_notes s = n # rest" "waiting_notes s' = rest"
      "done_hashes (shared s') = done_hashes (shared s)"
      unfolding submit(3) using submit(2) by (simp_all add: waiting_notes_def)
    with comp rn' show ?thesis
      unfolding complete_inv_def by (auto simp: tokens_of_def)
  next
    case (endloop idx)
    have "running_notes s' = running_notes s" "waiting_notes s' = []" "waiting_notes s = []"
      "shared s' = shared s"
      unfolding endloop(3) using endloop(2) by (simp_all add: running_notes_def waiting_notes_def)
    with comp show ?thesis unfolding complete_inv_def by simp
  next
    case (acquire k)
    have "running_notes s' = running_notes s" "waiting_notes s' = []" "waiting_notes s = []"
      "done_hashes (shared s') = done_hashes (shared s)"
      unfolding acquire(3) using acquire(2) by (simp_all add: running_notes_def waiting_notes_def)
    with comp show ?thesis unfolding complete_inv_def by simp
  next
    case (raised k e)
    have "running_notes s' = running_notes s" "waiting_notes s' = []" "waiting_notes s = []"
      "done_hashes (shared s') = done_hashes (shared s)"
      unfolding raised(3) using raised(2) by (simp_all add: running_notes_def waiting_notes_def)
    with comp show ?thesis unfolding complete_inv_def by simp
  next
    case (returned k)
    have "running_notes s' = running_notes s" "waiting_notes s' = []" "waiting_notes s = []"
      "done_hashes (shared s') = done_hashes (shared s)"
      unfolding returned(3) using returned(2) by (simp_all add: running_notes_def waiting_notes_def)
    with comp show ?thesis unfolding complete_inv_def by simp
  next
    case (run i a idx res w')
    let ?w = "shared s"
    let ?h = "note_hash (heap ?w ! a)"
    have cur: "running_notes s ! i = heap ?w ! a" and len: "i < length (running_notes s)"
      using run(2,3) by (simp_all add: running_notes_def)
    then have "heap ?w ! a \<in> set (running_notes s)" by (metis nth_mem)
    with rn have inN: "heap ?w ! a \<in> set N" by auto
    from parse inN obtain blocks where
      p: "parse_note env (apply_tag_rule (rules ?w) (heap ?w ! a)) (rules ?w) = Inr blocks"
      and ne: "blocks \<noteq> []"
      unfolding r by blast
    have wr: "EnexUploader_upload_note_with_release env (Some root) a idx ?w = (res, w')"
      using run(4) nb root by simp
    note dn = worker_completes [OF wr p ne upload]
    note led = worker_ledger [OF run(4)]
    from worker_effect [OF run(4)] obtain c where hp: "heap w' = heap ?w @ [c]" by blast
    have rn': "running_notes s' = take i (running_notes s) @ drop (Suc i) (running_notes s)"
      unfolding run(5) by (rule running_notes_run [OF th hp])
    have sh: "shared s' = w'" "waiting_notes s' = waiting_notes s"
      unfolding run(5) by (simp_all add: waiting_notes_def)
    have split: "tokens_of (running_notes s) = insert ?h (tokens_of (running_notes s'))"
      unfolding rn' using tokens_of_remove_nth [OF len] cur by simp
    show ?thesis
      unfolding complete_inv_def sh using comp [unfolded complete_inv_def split] dn led(1)
      by blast
  qed
qed

text \<open>The three invariants along a schedule.\<close>

lemma resume_exec:
  assumes "resume_inv N s0 s" and "upload_notebook_exec env acts s = Some s'"
  shows "((\<forall>n\<in>set N. clean_token (note_hash n)) \<and> append_error (shared s0) p = None \<and>
          file_inv p s \<longrightarrow> file_inv p s') \<and>
    ((\<exists>root. notebook_root s0 = Some root) \<and>
     (\<forall>n\<in>set N. \<exists>blocks.
        parse_note env (apply_tag_rule (rules (shared s0)) n) (rules (shared s0)) = Inr blocks \<and>
        blocks \<noteq> []) \<and>
     (\<forall>i c n b. \<exists>k<5.
        (\<forall>j<k. \<exists>m. upload_note env (i + j) c n b = Some (NoteUploadFailException m)) \<and>
        upload_note env (i + k) c n b = None) \<and>
     complete_inv N s \<longrightarrow> complete_inv N s')"
  using assms
proof (induction acts arbitrary: s)
  case Nil
  then show ?case by simp
next
  case (Cons act acts)
  then obtain s1 where s1: "upload_notebook_step env act s = Some s1"
    and rest: "upload_notebook_exec env acts s1 = Some s'"
    by (auto split: option.splits)
  note inv1 = resume_inv_step [OF Cons.prems(1) s1]
  note ih = Cons.IH [OF inv1 rest]
  show ?case
  proof (intro conjI impI)
    assume a: "(\<forall>n\<in>set N. clean_token (note_hash n)) \<and> append_error (shared s0) p = None \<and>
          file_inv p s"
    then have "file_inv p s1"
      using file_inv_step [OF Cons.prems(1) _ _ _ s1, of p] by blast
    with a ih show "file_inv p s'" by blast
  next
    assume a: "(\<exists>root. notebook_root s0 = Some root) \<and>
     (\<forall>n\<in>set N. \<exists>blocks.
        parse_note env (apply_tag_rule (rules (shared s0)) n) (rules (shared s0)) = Inr blocks \<and>
        blocks \<noteq> []) \<and>
     (\<forall>i c n b. \<exists>k<5.
        (\<forall>j<k. \<exists>m. upload_note env (i + j) c n b = Some (NoteUploadFailException m)) \<and>
        upload_note env (i + k) c n b = None) \<and>
     complete_inv N s"
    then obtain root where root: "notebook_root s0 = Some root" by blast
    from a have "complete_inv N s1"
      using complete_inv_step [OF Cons.prems(1) root _ _ _ s1] by blast
    with a ih show "complete_inv N s'" by blast
  qed
qed

lemma restart_fields:
  "done_hashes (restart p v) = DoneFile_init p (fs v)"
  "trace (restart p v) = trace v" "fs (restart p v) = fs v" "rules (restart p v) = rules v"
  "append_error (restart p v) = append_error v" "import_root (restart p v) = import_root v"
  "semaphore (restart p v) = parallelism (restart p v)"
  by (simp_all add: restart_def EnexUploader_init_def)

lemma upload_notebook_start_fields:
  "done_hashes (shared (upload_notebook_start env f u)) = done_hashes u"
  "fs (shared (upload_notebook_start env f u)) = fs u"
  "rules (shared (upload_notebook_start env f u)) = rules u"
  "append_error (shared (upload_notebook_start env f u)) = append_error u"
  "trace (shared (upload_notebook_start env f u)) = trace u @ [Log INFO (msg_processing (path_stem env f))]"
  "threads (upload_notebook_start env f u) = []"
  "waiting_notes (upload_notebook_start env f u) = iter_notes env f"
  "running_notes (upload_notebook_start env f u) = []"
  "import_root u \<noteq> None \<Longrightarrow> \<exists>root. notebook_root (upload_notebook_start env f u) = Some root"
  by (auto simp: upload_notebook_start_def Let_def log_record_def waiting_notes_def
      running_notes_def EnexUploader_get_notebook_root_def)

text \<open>
  Claim C6, as the code has it. The notes of a notebook are processed twice, each time
  by a new uploader whose ledger is constructed from the file at the same path, under
  any two schedules. Every upload call of the second run is for a note of the notebook
  whose token is not in the ledger that the second run starts with: it uploads none of
  the notes that are in the ledger. The ledger of the second run keeps the tokens that
  it starts with and gains only tokens of the notes. It is the set of the tokens of
  the notes under these conditions: there was no ledger file before the first run, the
  file can be opened for appending, there is a destination container, the tokens are
  clean, every note has blocks, every upload returns within the five attempts, and the
  first run has returned. Then the second run makes no upload call at all, and the file
  holds the tokens of the notes and nothing else; it holds each of them exactly once when
  no two notes have the same token (two workers on notes with the same token can both
  find it absent before either of them adds it).
\<close>

theorem idempotent_resume:
  assumes first: "upload_notebook env enex_file acts1 (restart p w) = Some s1"
    and second: "upload_notebook env enex_file acts2 (restart p (shared s1)) = Some s2"
  shows
    "(\<forall>c n b y. UploadCall c n b y \<in> set (drop (length (trace (shared s1))) (trace (shared s2))) \<longrightarrow>
        note_hash n \<in> note_hash ` set (iter_notes env enex_file) \<and>
        \<not> DoneFile_contains (DoneFile_init p (fs (shared s1))) (note_hash n)) \<and>
     hashes_of (DoneFile_init p (fs (shared s1))) \<subseteq> hashes_of (done_hashes (shared s2)) \<and>
     hashes_of (done_hashes (shared s2))
       \<subseteq> hashes_of (DoneFile_init p (fs (shared s1))) \<union> note_hash ` set (iter_notes env enex_file) \<and>
     (fs w p = None \<and> append_error w p = None \<and> import_root w \<noteq> None \<and>
      (\<forall>n\<in>set (iter_notes env enex_file). clean_token (note_hash n) \<and>
         (\<exists>blocks. parse_note env (apply_tag_rule (rules w) n) (rules w) = Inr blocks \<and>
            blocks \<noteq> [])) \<and>
      (\<forall>i c n b. \<exists>k<5.
         (\<forall>j<k. \<exists>m. upload_note env (i + j) c n b = Some (NoteUploadFailException m)) \<and>
         upload_note env (i + k) c n b = None) \<and>
      coord s1 = Returned \<longrightarrow>
        hashes_of (done_hashes (shared s1)) = note_hash ` set (iter_notes env enex_file) \<and>
        hashes_of (done_hashes (shared s2)) = note_hash ` set (iter_notes env enex_file) \<and>
        (\<forall>e\<in>set (drop (length (trace (shared s1))) (trace (shared s2))). \<not> is_UploadCall e) \<and>
        set (file_tokens p (fs (shared s2))) = note_hash ` set (iter_notes env enex_file) \<and>
        (distinct (map note_hash (iter_notes env enex_file)) \<longrightarrow>
           distinct (file_tokens p (fs (shared s2)))))"
proof -
  let ?N = "iter_notes env enex_file"
  let ?u1 = "restart p w"
  let ?u2 = "restart p (shared s1)"
  let ?s01 = "upload_notebook_start env enex_file ?u1"
  let ?s02 = "upload_notebook_start env enex_file ?u2"
  let ?D1 = "hashes_of (DoneFile_init p (fs (shared s1)))"
  note st = upload_notebook_start_fields
  note rs = restart_fields
  have ex1: "upload_notebook_exec env acts1 ?s01 = Some s1"
    using first unfolding upload_notebook_def .
  have ex2: "upload_notebook_exec env acts2 ?s02 = Some s2"
    using second unfolding upload_notebook_def .
  have inv1: "resume_inv ?N ?s01 s1"
    by (rule resume_inv_exec [OF resume_inv_start ex1])
  have inv2: "resume_inv ?N ?s02 s2"
    by (rule resume_inv_exec [OF resume_inv_start ex2])
  have start2: "hashes_of (done_hashes (shared ?s02)) = ?D1"
    "trace (shared ?s02) = trace (shared s1) @ [Log INFO (msg_processing (path_stem env enex_file))]"
    by (simp_all add: st rs)
  from inv2 obtain ev where
    ev: "trace (shared s2) = trace (shared ?s02) @ ev"
      "\<forall>e\<in>set ev. is_UploadCall e \<longrightarrow>
         (\<exists>c n b y. e = UploadCall c n b y \<and> note_hash n \<in> tokens_of ?N \<and>
            note_hash n \<notin> hashes_of (done_hashes (shared ?s02)))"
    and lo: "hashes_of (done_hashes (shared ?s02)) \<subseteq> hashes_of (done_hashes (shared s2))"
    and hi: "hashes_of (done_hashes (shared s2))
       \<subseteq> hashes_of (done_hashes (shared ?s02)) \<union> tokens_of ?N"
    unfolding resume_inv_def by blast
  have new: "drop (length (trace (shared s1))) (trace (shared s2))
      = Log INFO (msg_processing (path_stem env enex_file)) # ev"
    unfolding ev(1) start2(2) by simp
  have a: "\<forall>c n b y. UploadCall c n b y \<in> set (drop (length (trace (shared s1))) (trace (shared s2))) \<longrightarrow>
        note_hash n \<in> note_hash ` set ?N \<and>
        \<not> DoneFile_contains (DoneFile_init p (fs (shared s1))) (note_hash n)"
  proof (intro allI impI)
    fix c n b y
    assume "UploadCall c n b y \<in> set (drop (length (trace (shared s1))) (trace (shared s2)))"
    then have "UploadCall c n b y \<in> set ev" unfolding new by simp
    with ev(2) have "note_hash n \<in> tokens_of ?N \<and>
        note_hash n \<notin> hashes_of (done_hashes (shared ?s02))"
      by fastforce
    then show "note_hash n \<in> note_hash ` set ?N \<and>
        \<not> DoneFile_contains (DoneFile_init p (fs (shared s1))) (note_hash n)"
      unfolding start2(1) by (simp add: tokens_of_def DoneFile_contains_def)
  qed
  have b: "?D1 \<subseteq> hashes_of (done_hashes (shared s2))"
    using lo unfolding start2(1) .
  have c: "hashes_of (done_hashes (shared s2)) \<subseteq> ?D1 \<union> note_hash ` set ?N"
    using hi unfolding start2(1) tokens_of_def .
  have d: "hashes_of (done_hashes (shared s1)) = note_hash ` set ?N \<and>
        hashes_of (done_hashes (shared s2)) = note_hash ` set ?N \<and>
        (\<forall>e\<in>set (drop (length (trace (shared s1))) (trace (shared s2))). \<not> is_UploadCall e) \<and>
        set (file_tokens p (fs (shared s2))) = note_hash ` set ?N \<and>
        (distinct (map note_hash ?N) \<longrightarrow> distinct (file_tokens p (fs (shared s2))))"
    if good: "fs w p = None \<and> append_error w p = None \<and> import_root w \<noteq> None \<and>
      (\<forall>n\<in>set ?N. clean_token (note_hash n) \<and>
         (\<exists>blocks. parse_note env (apply_tag_rule (rules w) n) (rules w) = Inr blocks \<and>
            blocks \<noteq> [])) \<and>
      (\<forall>i c n b. \<exists>k<5.
         (\<forall>j<k. \<exists>m. upload_note env (i + j) c n b = Some (NoteUploadFailException m)) \<and>
         upload_note env (i + k) c n b = None) \<and>
      coord s1 = Returned"
  proof -
    from good have nofile: "fs w p = None" and ae: "append_error w p = None"
      and ir: "import_root w \<noteq> None"
      and clean: "\<forall>n\<in>set ?N. clean_token (note_hash n)"
      and parse: "\<forall>n\<in>set ?N. \<exists>blocks.
         parse_note env (apply_tag_rule (rules w) n) (rules w) = Inr blocks \<and> blocks \<noteq> []"
      and upload: "\<forall>i c n b. \<exists>k<5.
         (\<forall>j<k. \<exists>m. upload_note env (i + j) c n b = Some (NoteUploadFailException m)) \<and>
         upload_note env (i + k) c n b = None"
      and ret: "coord s1 = Returned"
      by simp_all
    have toks0: "file_tokens p (fs w) = []"
      using nofile by (simp add: file_tokens_def file_text_def readlines_def)
    have f01: "file_inv p ?s01"
      using nofile toks0
      by (simp add: file_inv_def st rs DoneFile_init_tokens newline_ended_def file_text_def)
    have ae1: "append_error (shared ?s01) p = None" using ae by (simp add: st rs)
    have f1: "file_inv p s1"
      using resume_exec [OF resume_inv_start ex1, of p] clean ae1 f01 by blast
    have c01: "complete_inv ?N ?s01" by (simp add: complete_inv_def st)
    have root1: "\<exists>root. notebook_root ?s01 = Some root"
      by (rule st(9)) (simp add: rs ir)
    have parse1: "\<forall>n\<in>set ?N. \<exists>blocks.
        parse_note env (apply_tag_rule (rules (shared ?s01)) n) (rules (shared ?s01)) = Inr blocks \<and>
        blocks \<noteq> []"
      using parse by (simp add: st rs)
    have c1: "complete_inv ?N s1"
      using resume_exec [OF resume_inv_start ex1, of p] root1 parse1 upload c01 by blast
    have "slots_inv (parallelism ?u1) s1"
      by (rule slots_inv_exec [OF slots_inv_start ex1]) (rule rs(7))
    with ret have nothreads: "threads s1 = []" by (simp add: slots_inv_def)
    have none: "running_notes s1 = []" "waiting_notes s1 = []"
      using nothreads ret by (simp_all add: running_notes_def waiting_notes_def)
    have sup1: "tokens_of ?N \<subseteq> hashes_of (done_hashes (shared s1))"
      using c1 unfolding complete_inv_def none by (simp add: tokens_of_def)
    have "hashes_of (done_hashes (shared s1)) \<subseteq> hashes_of (done_hashes (shared ?s01)) \<union> tokens_of ?N"
      using inv1 unfolding resume_inv_def by blast
    moreover have "hashes_of (done_hashes (shared ?s01)) = {}"
      using toks0 by (simp add: st rs DoneFile_init_tokens)
    ultimately have h1: "hashes_of (done_hashes (shared s1)) = tokens_of ?N"
      using sup1 by blast
    from f1 have toks1: "set (file_tokens p (fs (shared s1))) = tokens_of ?N"
      and nl1: "newline_ended (file_text p (fs (shared s1)))"
      and dist1: "distinct (file_tokens p (fs (shared s1)))"
      using h1 unfolding file_inv_def by (cases "done_hashes (shared s1)"; simp)+
    have D1: "?D1 = tokens_of ?N"
      unfolding DoneFile_init_tokens using toks1 by simp
    then have h2: "hashes_of (done_hashes (shared s2)) = tokens_of ?N"
      using b c by (auto simp: tokens_of_def)
    have noup: "\<forall>e\<in>set (drop (length (trace (shared s1))) (trace (shared s2))). \<not> is_UploadCall e"
      unfolding new using ev(2) unfolding start2(1) D1 by auto
    have f02: "file_inv p ?s02"
      using nl1 dist1 by (simp add: file_inv_def st rs DoneFile_init_tokens)
    have "append_error (shared s1) = append_error (shared ?s01)"
      using inv1 unfolding resume_inv_def by blast
    then have ae2: "append_error (shared ?s02) p = None"
      using ae by (simp add: st rs)
    have f2: "file_inv p s2"
      using resume_exec [OF resume_inv_start ex2, of p] clean ae2 f02 by blast
    then have toks2: "set (file_tokens p (fs (shared s2))) = tokens_of ?N"
      and dist2: "distinct (file_tokens p (fs (shared s2)))"
      using h2 unfolding file_inv_def by (cases "done_hashes (shared s2)"; simp)+
    from h1 h2 noup toks2 dist2 show ?thesis by (simp add: tokens_of_def)
  qed
  from a b c d show ?thesis by blast
qed

theorem idempotent_resume_witness:
  "coord (the (upload_notebook (env_script (fail_first 0)) ''nb'' schedule_3
       (restart ''done.txt'' w_idle))) = Returned \<and>
   hashes_of (done_hashes (shared (the (upload_notebook (env_script (fail_first 0)) ''nb'' schedule_3
       (restart ''done.txt'' w_idle))))) = {''h1'', ''h2'', ''h3''} \<and>
   hashes_of (done_hashes (shared (the (upload_notebook (env_script (fail_first 0)) ''nb'' schedule_3
       (restart ''done.txt'' (shared (the (upload_notebook (env_script (fail_first 0)) ''nb'' schedule_3
          (restart ''done.txt'' w_idle))))))))) = {''h1'', ''h2'', ''h3''} \<and>
   filter is_UploadCall
     (drop (length (trace (shared (the (upload_notebook (env_script (fail_first 0)) ''nb'' schedule_3
          (restart ''done.txt'' w_idle))))))
        (trace (shared (the (upload_notebook (env_script (fail_first 0)) ''nb'' schedule_3
          (restart ''done.txt'' (shared (the (upload_notebook (env_script (fail_first 0)) ''nb'' schedule_3
             (restart ''done.txt'' w_idle)))))))))) = [] \<and>
   set (file_tokens ''done.txt'' (fs (shared (the (upload_notebook (env_script (fail_first 0)) ''nb''
       schedule_3 (restart ''done.txt'' (shared (the (upload_notebook (env_script (fail_first 0)) ''nb''
          schedule_3 (restart ''done.txt'' w_idle)))))))))) = {''h1'', ''h2'', ''h3''} \<and>
   distinct (file_tokens ''done.txt'' (fs (shared (the (upload_notebook (env_script (fail_first 0)) ''nb''
       schedule_3 (restart ''done.txt'' (shared (the (upload_notebook (env_script (fail_first 0)) ''nb''
          schedule_3 (restart ''done.txt'' w_idle))))))))))"
proof -
  let ?E = "env_script (fail_first 0)"
  let ?s1 = "the (upload_notebook ?E ''nb'' schedule_3 (restart ''done.txt'' w_idle))"
  let ?s2 = "the (upload_notebook ?E ''nb'' schedule_3 (restart ''done.txt'' (shared ?s1)))"
  have "\<not> Option.is_none (upload_notebook ?E ''nb'' schedule_3 (restart ''done.txt'' w_idle))"
    by code_simp
  then have h1: "upload_notebook ?E ''nb'' schedule_3 (restart ''done.txt'' w_idle) = Some ?s1"
    by (simp add: Option.is_none_def)
  have "\<not> Option.is_none (upload_notebook ?E ''nb'' schedule_3 (restart ''done.txt'' (shared ?s1)))"
    by code_simp
  then have h2: "upload_notebook ?E ''nb'' schedule_3 (restart ''done.txt'' (shared ?s1)) = Some ?s2"
    by (simp add: Option.is_none_def)
  have ret: "coord ?s1 = Returned" by code_simp
  have N: "iter_notes ?E ''nb'' = [note_a, note_b, note_c]" by (simp add: env_script_def)
  have hs: "note_hash note_a = ''h1''" "note_hash note_b = ''h2''" "note_hash note_c = ''h3''"
    by (simp_all add: note_a_def note_b_def note_c_def)
  have cl: "clean_token ''h1''" "clean_token ''h2''" "clean_token ''h3''" by code_simp+
  have w: "fs w_idle ''done.txt'' = None" "append_error w_idle ''done.txt'' = None"
    "import_root w_idle \<noteq> None"
    by (simp_all add: w_idle_def w_start_def)
  have p: "\<exists>blocks. parse_note ?E (apply_tag_rule (rules w_idle) n) (rules w_idle) = Inr blocks \<and>
      blocks \<noteq> []" for n
    by (simp add: env_script_def)
  have u: "\<forall>i c n b. \<exists>k<5.
         (\<forall>j<k. \<exists>m. upload_note ?E (i + j) c n b = Some (NoteUploadFailException m)) \<and>
         upload_note ?E (i + k) c n b = None"
    by (intro allI exI [of _ 0]) (simp add: env_script_def fail_first_def)
  from idempotent_resume [OF h1 h2] ret w p u cl
  have "hashes_of (done_hashes (shared ?s1)) = {''h1'', ''h2'', ''h3''} \<and>
    hashes_of (done_hashes (shared ?s2)) = {''h1'', ''h2'', ''h3''} \<and>
    (\<forall>e\<in>set (drop (length (trace (shared ?s1))) (trace (shared ?s2))). \<not> is_UploadCall e) \<and>
    set (file_tokens ''done.txt'' (fs (shared ?s2))) = {''h1'', ''h2'', ''h3''} \<and>
    distinct (file_tokens ''done.txt'' (fs (shared ?s2)))"
    unfolding N by (simp add: hs)
  with ret show ?thesis by (simp add: filter_empty_conv)
qed

text \<open>
  Counterexample to claim C6 as stated. The translation gives no blocks for the three
  notes, so each of them is skipped. Both runs return, and after the second one the
  ledger is empty and there is no ledger file: the tokens of the notes are not in it.
\<close>

theorem idempotent_resume_counterexample:
  "coord (the (upload_notebook env_no_blocks ''nb'' schedule_3 (restart ''done.txt'' w_idle)))
     = Returned \<and>
   coord (the (upload_notebook env_no_blocks ''nb'' schedule_3
     (restart ''done.txt'' (shared (the (upload_notebook env_no_blocks ''nb'' schedule_3
        (restart ''done.txt'' w_idle))))))) = Returned \<and>
   map note_hash (iter_notes env_no_blocks ''nb'') = [''h1'', ''h2'', ''h3''] \<and>
   hashes_of (done_hashes (shared (the (upload_notebook env_no_blocks ''nb'' schedule_3
     (restart ''done.txt'' (shared (the (upload_notebook env_no_blocks ''nb'' schedule_3
        (restart ''done.txt'' w_idle)))))))))  = {} \<and>
   file_tokens ''done.txt'' (fs (shared (the (upload_notebook env_no_blocks ''nb'' schedule_3
     (restart ''done.txt'' (shared (the (upload_notebook env_no_blocks ''nb'' schedule_3
        (restart ''done.txt'' w_idle))))))))) = []"
  by code_simp

end
